theory Spec2Isabelle
  imports Complex_Main "HOL-Library.Word"
begin

section \<open>Values of the profiler report\<close>

text \<open>
  The extension runs a profiler on a notebook, reads the profiler's JSON report and
  decorates each code cell with per-line timings and a summary. The embedding follows
  the richer of the two variants of the extension (the one with \<open>formatTime\<close> and
  \<open>classifyCell\<close>); the hover provider is the same in both.

  The report's numbers meet JavaScript's operators. The embedding fixes these readings:
  \<^item> a number of the decoded report is a finite binary64 value, held as the \<^typ>\<open>rat\<close>
    it denotes; the quotients \<open>formatTime\<close> takes are rounded to binary64 as
    JavaScript's division rounds them, and \<open>toFixed\<close> works on the exact value of the
    binary64 number it is given; the one quotient of \<open>classifyCell\<close>, which is only
    compared with 1000 and 100, is taken exactly;
  \<^item> a hit count is a \<^typ>\<open>nat\<close>: the report counts executions;
  \<^item> a numeric property that is missing (\<open>undefined\<close>) or \<open>null\<close> is \<open>None\<close>; both
    are falsy, and the program only ever tests such a property for truthiness;
  \<^item> the decoded report is an object; an entry of \<open>lines\<close> is an object, as the
    report's format has it, whose properties may be missing; an element of \<open>cells\<close>
    is such an object or null;
    \<open>cells\<close> itself may be missing or null, a number or a boolean, an object, or an
    array (a string there is not modelled);
  \<^item> a string the program measures or parses (a cell's source, a key of \<open>lines\<close>)
    is a list of UTF-16 code units; a string the program only assembles for display
    is a \<^typ>\<open>string\<close> holding its UTF-8 bytes.
  Applying the stored decorations to the visible editors changes nothing the program
  reads back and is left out.
\<close>

type_synonym code_unit = "16 word"

datatype error = SyntaxError | TypeError

text \<open>\<open>!x\<close> and \<open>x || d\<close> on a numeric property: \<open>undefined\<close>, \<open>null\<close> and \<open>0\<close> are falsy.\<close>

definition falsy :: "'a::zero option \<Rightarrow> bool" where
  "falsy v = (case v of None \<Rightarrow> True | Some x \<Rightarrow> x = 0)"

definition or_else :: "'a::zero option \<Rightarrow> 'a \<Rightarrow> 'a" where
  "or_else v d = (case v of None \<Rightarrow> d | Some x \<Rightarrow> if x = 0 then d else x)"

section \<open>Number to string\<close>

text \<open>The three characters outside ASCII that the templates contain, in UTF-8.\<close>

definition stopwatch :: string where
  "stopwatch = [CHR 0xE2, CHR 0x8F, CHR 0xB1]"

definition high_voltage :: string where
  "high_voltage = [CHR 0xE2, CHR 0x9A, CHR 0xA1]"

definition micro_sign :: string where
  "micro_sign = [CHR 0xC2, CHR 0xB5]"

definition digit_char :: "nat \<Rightarrow> char" where
  "digit_char d = ''0123456789'' ! d"

fun decimal :: "nat \<Rightarrow> string" where
  "decimal n = (if n < 10 then [digit_char n] else decimal (n div 10) @ [digit_char (n mod 10)])"

declare decimal.simps [simp del]

text \<open>
  \<open>Number::toString\<close> of a non-negative integer: plain digits below \<open>10^21\<close>; from there
  on the digits up to the last non-zero one, a point after the first, and the exponent.
  The digits are the integer's own, which are the digits \<open>Number::toString\<close> prints for
  a binary64 value of no more than 15 significant digits.
\<close>

definition strip_zeros :: "string \<Rightarrow> string" where
  "strip_zeros s = rev (dropWhile (\<lambda>c. c = CHR ''0'') (rev s))"

definition exponential :: "nat \<Rightarrow> string" where
  "exponential n =
     (let m = decimal n; s = strip_zeros m; e = decimal (length m - 1)
      in if length s \<le> 1 then s @ ''e+'' @ e
         else take 1 s @ ''.'' @ drop 1 s @ ''e+'' @ e)"

definition numberToString :: "nat \<Rightarrow> string" where
  "numberToString n = (if n < 10 ^ 21 then decimal n else exponential n)"

text \<open>
  \<open>Number.prototype.toFixed(f)\<close>: the sign apart, the integer \<open>n\<close> nearest to
  \<open>x * 10^f\<close> (the larger of two), its digits padded to \<open>f + 1\<close> places, the point
  before the last \<open>f\<close>. At \<open>10^21\<close> and above it is \<open>Number::toString\<close> instead:
  a binary64 value of that size is an integer, here the integer nearest to \<open>x\<close>.
\<close>

definition round_half_up :: "rat \<Rightarrow> nat" where
  "round_half_up x = nat \<lfloor>x + 1 / 2\<rfloor>"

definition fixed_digits :: "rat \<Rightarrow> nat \<Rightarrow> string" where
  "fixed_digits x f =
     (let m = decimal (round_half_up (x * 10 ^ f));
          m' = replicate (f + 1 - length m) CHR ''0'' @ m
      in if f = 0 then m
         else take (length m' - f) m' @ ''.'' @ drop (length m' - f) m')"

definition toFixed_abs :: "rat \<Rightarrow> nat \<Rightarrow> string" where
  "toFixed_abs x f =
     (if x \<ge> 10 ^ 21 then numberToString (round_half_up x) else fixed_digits x f)"

definition toFixed :: "rat \<Rightarrow> nat \<Rightarrow> string" where
  "toFixed x f = (if x < 0 then ''-'' @ toFixed_abs (- x) f else toFixed_abs x f)"

section \<open>Division in binary64\<close>

text \<open>
  \<open>x / y\<close> on Numbers is the binary64 value nearest to the exact quotient, the one with
  the even significand when two are equally near: with \<open>e\<close> the exponent of the
  quotient (\<open>2^e \<le> |x| < 2^(e+1)\<close>), the quotient is rounded to a multiple of
  \<open>2^(e-52)\<close>, or of \<open>2^-1074\<close> in the subnormal range. The quotients of the program
  are smaller in magnitude than the binary64 value they divide, so none overflows.
\<close>

definition pow2 :: "int \<Rightarrow> rat" where
  "pow2 k = (if 0 \<le> k then 2 ^ nat k else 1 / 2 ^ nat (- k))"

fun bit_length :: "nat \<Rightarrow> nat" where
  "bit_length n = (if n = 0 then 0 else Suc (bit_length (n div 2)))"

declare bit_length.simps [simp del]

text \<open>The exponent \<open>e\<close> of a positive number.\<close>

definition ilog2 :: "rat \<Rightarrow> int" where
  "ilog2 a =
     (if 1 \<le> a then int (bit_length (nat \<lfloor>a\<rfloor>)) - 1
      else - int (bit_length (nat (- \<lfloor>- (1 / a)\<rfloor>) - 1)))"

definition round_half_even :: "rat \<Rightarrow> int" where
  "round_half_even r =
     (let f = \<lfloor>r\<rfloor>; d = r - of_int f
      in if d < 1 / 2 then f else if 1 / 2 < d then f + 1 else if even f then f else f + 1)"

definition binary64 :: "rat \<Rightarrow> rat" where
  "binary64 x =
     (if x = 0 then 0
      else
        let q = max (ilog2 \<bar>x\<bar> - 52) (- 1074)
        in sgn x * of_int (round_half_even (\<bar>x\<bar> / pow2 q)) * pow2 q)"

definition divide64 :: "rat \<Rightarrow> rat \<Rightarrow> rat" where
  "divide64 x y = binary64 (x / y)"

section \<open>formatTime\<close>

text \<open>
  The argument is a property of the report or a defaulted number. \<open>parseFloat\<close> of a
  number is that number.
\<close>

definition formatTime :: "rat option \<Rightarrow> string" where
  "formatTime t =
     (if falsy t then ''N/A''
      else
        let timeInMicroseconds = divide64 (the t) 10;
            timeInMilliseconds = divide64 timeInMicroseconds 1000;
            timeInSeconds = divide64 timeInMilliseconds 1000;
            timeInMinutes = divide64 timeInSeconds 60
        in if timeInMinutes \<ge> 1 then toFixed timeInMinutes 2 @ '' min''
           else if timeInSeconds \<ge> 1 then toFixed timeInSeconds 2 @ '' s''
           else if timeInMilliseconds \<ge> 1 then toFixed timeInMilliseconds 2 @ '' ms''
           else toFixed timeInMicroseconds 2 @ '' '' @ micro_sign @ ''s'')"

section \<open>classifyCell and colorForCategory\<close>

text \<open>
  \<open>classifyCell\<close> reads four properties of whatever object it is given; the program
  calls it on a cell's entry and on a line's entry alike.
\<close>

record stats =
  percent_time :: "rat option"
  total_time :: "rat option"
  total_hits :: "nat option"
  memory_delta_mb :: "rat option"

definition classifyCell :: "'a stats_scheme \<Rightarrow> string" where
  "classifyCell cellData =
     (let percent_runtime = or_else (percent_time cellData) 0;
          avg_time_per_hit =
            or_else (total_time cellData) 0 / rat_of_nat (or_else (total_hits cellData) 1);
          total_hits' = or_else (total_hits cellData) 0;
          mem_impact = or_else (memory_delta_mb cellData) 0
      in if percent_runtime > 30 then ''Performance-Critical''
         else if avg_time_per_hit > 1000 then ''CPU-Intensive''
         else if total_hits' > 10000 \<and> avg_time_per_hit < 100 then ''Loop-Intensive''
         else if mem_impact > 3 / 10 then ''Memory-Intensive''
         else ''Normal'')"

definition colorForCategory :: "string \<Rightarrow> string" where
  "colorForCategory category =
     (if category = ''Performance-Critical'' then ''red''
      else if category = ''CPU-Intensive'' then ''orange''
      else if category = ''Loop-Intensive'' then ''green''
      else if category = ''Memory-Intensive'' then ''purple''
      else ''gray'')"

section \<open>Strings the program takes apart\<close>

text \<open>\<open>getText().split('\n')\<close>: the pieces between line feeds; never an empty array.\<close>

fun split_newline :: "code_unit list \<Rightarrow> code_unit list list" where
  "split_newline [] = [[]]"
| "split_newline (c # cs) =
     (if c = 0x0A then [] # split_newline cs
      else (case split_newline cs of
              [] \<Rightarrow> [[c]]
            | l # ls \<Rightarrow> (c # l) # ls))"

text \<open>
  \<open>parseInt(string)\<close> with no radix: white space is skipped, then a sign, then \<open>0x\<close>
  or \<open>0X\<close> selects radix 16, then the longest run of digits of the radix is read;
  no digit at all gives \<open>NaN\<close>, here \<open>None\<close>.
\<close>

definition StrWhiteSpaceChar :: "code_unit \<Rightarrow> bool" where
  "StrWhiteSpaceChar c =
     (c = 0x09 \<or> c = 0x0A \<or> c = 0x0B \<or> c = 0x0C \<or> c = 0x0D \<or> c = 0x20 \<or> c = 0xA0
      \<or> c = 0x1680 \<or> (0x2000 \<le> c \<and> c \<le> 0x200A) \<or> c = 0x2028 \<or> c = 0x2029
      \<or> c = 0x202F \<or> c = 0x205F \<or> c = 0x3000 \<or> c = 0xFEFF)"

definition digit_value :: "code_unit \<Rightarrow> nat option" where
  "digit_value c =
     (if 0x30 \<le> c \<and> c \<le> 0x39 then Some (unat c - 0x30)
      else if 0x61 \<le> c \<and> c \<le> 0x7A then Some (unat c - 0x61 + 10)
      else if 0x41 \<le> c \<and> c \<le> 0x5A then Some (unat c - 0x41 + 10)
      else None)"

definition is_radix_digit :: "nat \<Rightarrow> code_unit \<Rightarrow> bool" where
  "is_radix_digit R c = (case digit_value c of None \<Rightarrow> False | Some d \<Rightarrow> d < R)"

definition radix_value :: "nat \<Rightarrow> code_unit list \<Rightarrow> nat" where
  "radix_value R Z = foldl (\<lambda>a c. a * R + the (digit_value c)) 0 Z"

definition parseInt :: "code_unit list \<Rightarrow> int option" where
  "parseInt inputString =
     (let S = dropWhile StrWhiteSpaceChar inputString;
          sign = (case S of c # _ \<Rightarrow> if c = 0x2D then - 1 else 1 | [] \<Rightarrow> (1 :: int));
          S1 = (case S of c # rest \<Rightarrow> if c = 0x2B \<or> c = 0x2D then rest else S | [] \<Rightarrow> S);
          hex = (case S1 of c # d # _ \<Rightarrow> c = 0x30 \<and> (d = 0x78 \<or> d = 0x58) | _ \<Rightarrow> False);
          R = (if hex then 16 else 10);
          S2 = (if hex then drop 2 S1 else S1);
          Z = takeWhile (is_radix_digit R) S2
      in if Z = [] then None else Some (sign * int (radix_value R Z)))"

section \<open>The report and the notebook\<close>

text \<open>
  An entry of \<open>lines\<close> has \<open>time\<close> and \<open>percent\<close>; a cell's entry has the aggregate
  properties and \<open>lines\<close>, the pairs that \<open>Object.entries\<close> yields, in its order.
  \<open>lines\<close>, an element of \<open>cells\<close> and \<open>cells\<close> itself may each be missing.
\<close>

record line_stats = stats +
  time :: "rat option"
  percent :: "rat option"

record cell_stats = stats +
  lines :: "(code_unit list \<times> line_stats) list option"

text \<open>
  The value of \<open>cells\<close>: missing or null; a number or a boolean; an object, given by its
  properties whose names are indices; an array.
\<close>

datatype cells_value =
    NoCells
  | CellsScalar
  | CellsObject "(nat \<times> cell_stats option) list"
  | CellsArray "cell_stats option list"

record profilingData =
  cells :: cells_value

datatype NotebookCellKind = Markup | Code

record 'd text_document =
  uri :: 'd
  getText :: "code_unit list"

record 'd notebook_cell =
  kind :: NotebookCellKind
  document :: "'d text_document option"

text \<open>
  A decoration: its range (always empty, start and end alike) and the text and colour
  of what is rendered after it. The style properties are the same constants in every
  decoration and are left out.
\<close>

record position =
  line :: nat
  character :: nat

record decoration =
  range_start :: position
  range_end :: position
  contentText :: string
  color :: string

section \<open>Decorations of one cell\<close>

definition line_decoration :: "code_unit list list \<Rightarrow> nat \<Rightarrow> line_stats \<Rightarrow> decoration" where
  "line_decoration srcLines lineNumber lineData =
     (let lineLength = length (srcLines ! lineNumber);
          category = classifyCell lineData;
          color = colorForCategory category
      in \<lparr>range_start = \<lparr>line = lineNumber, character = lineLength\<rparr>,
          range_end = \<lparr>line = lineNumber, character = lineLength\<rparr>,
          contentText =
            stopwatch @ '' '' @ formatTime (time lineData) @ ''  | '' @ high_voltage @ '' ''
            @ (if falsy (percent lineData) then ''N/A'' else toFixed (the (percent lineData)) 2)
            @ ''%'',
          color = color\<rparr>)"

text \<open>\<open>parseInt(lineNumStr) - 1\<close>, and the test that guards the push.\<close>

definition line_index :: "code_unit list \<Rightarrow> int option" where
  "line_index lineNumStr = map_option (\<lambda>n. n - 1) (parseInt lineNumStr)"

definition in_bounds :: "code_unit list list \<Rightarrow> code_unit list \<Rightarrow> bool" where
  "in_bounds srcLines lineNumStr =
     (case line_index lineNumStr of
        None \<Rightarrow> False
      | Some lineNumber \<Rightarrow> lineNumber \<ge> 0 \<and> lineNumber < int (length srcLines))"

text \<open>The \<open>forEach\<close> over the entries, pushing in their order.\<close>

fun line_decorations ::
  "code_unit list list \<Rightarrow> (code_unit list \<times> line_stats) list \<Rightarrow> decoration list" where
  "line_decorations srcLines [] = []"
| "line_decorations srcLines ((lineNumStr, lineData) # rest) =
     (if in_bounds srcLines lineNumStr
      then line_decoration srcLines (nat (the (line_index lineNumStr))) lineData
             # line_decorations srcLines rest
      else line_decorations srcLines rest)"

definition summary_decoration :: "code_unit list list \<Rightarrow> cell_stats \<Rightarrow> decoration" where
  "summary_decoration srcLines cellData =
     (let totalTime = or_else (total_time cellData) 0;
          totalHits = or_else (total_hits cellData) 0;
          category = classifyCell cellData;
          color = colorForCategory category;
          summaryText =
            ''Total time: '' @ stopwatch @ '' '' @ formatTime (Some totalTime)
            @ '' | Total hits: '' @ numberToString totalHits
            @ '' | Classification: '' @ category;
          lastLineIndex = length srcLines - 1;
          lastLineLength = length (srcLines ! lastLineIndex)
      in \<lparr>range_start = \<lparr>line = lastLineIndex, character = lastLineLength\<rparr>,
          range_end = \<lparr>line = lastLineIndex, character = lastLineLength\<rparr>,
          contentText = '' | '' @ summaryText,
          color = color\<rparr>)"

text \<open>
  The body of the \<open>if\<close> for one cell. \<open>Object.entries\<close> of a missing \<open>lines\<close> throws a
  TypeError before anything is pushed.
\<close>

definition cell_decorations :: "code_unit list \<Rightarrow> cell_stats \<Rightarrow> error + decoration list" where
  "cell_decorations src cellData =
     (let srcLines = split_newline src
      in case lines cellData of
           None \<Rightarrow> Inl TypeError
         | Some entries \<Rightarrow>
             Inr (line_decorations srcLines entries @ [summary_decoration srcLines cellData]))"

section \<open>The decorations map\<close>

text \<open>
  \<open>cellDecorationsMap\<close> is a JavaScript \<open>Map\<close>: entries in insertion order, \<open>set\<close>
  replacing the value of a key that is there and appending one that is not.
\<close>

type_synonym 'd decorations_map = "('d \<times> decoration list) list"

definition Map_clear :: "'d decorations_map" where
  "Map_clear = []"

definition Map_get :: "'d decorations_map \<Rightarrow> 'd \<Rightarrow> decoration list option" where
  "Map_get m k = map_of m k"

fun Map_set :: "'d decorations_map \<Rightarrow> 'd \<Rightarrow> decoration list \<Rightarrow> 'd decorations_map" where
  "Map_set [] k v = [(k, v)]"
| "Map_set ((k', v') # m) k v = (if k' = k then (k, v) # m else (k', v') # Map_set m k v)"

section \<open>The profiling run\<close>

record 'd extension_state =
  cellDecorationsMap :: "'d decorations_map"
  hoverProviderRegistered :: bool

text \<open>
  What the command shows when it ends: \<open>Profiler error\<close>, \<open>Profiler output not found\<close>,
  \<open>Failed to parse profiler output\<close> with the exception caught, or
  \<open>Profiler annotations added to notebook cells\<close>.
\<close>

datatype notification =
  ProfilerError | OutputNotFound | FailedToParse error | AnnotationsAdded

text \<open>
  \<open>profilingCells[cellIndex]\<close>: a TypeError on \<open>undefined\<close> and \<open>null\<close>; \<open>undefined\<close> on a
  number or a boolean, for a property an object does not have and for an index past the
  end of an array.
\<close>

definition cell_entry :: "cells_value \<Rightarrow> nat \<Rightarrow> error + cell_stats option" where
  "cell_entry profilingCells cellIndex =
     (case profilingCells of
        NoCells \<Rightarrow> Inl TypeError
      | CellsScalar \<Rightarrow> Inr None
      | CellsObject props \<Rightarrow>
          Inr (case map_of props cellIndex of None \<Rightarrow> None | Some entry \<Rightarrow> entry)
      | CellsArray entries \<Rightarrow>
          Inr (if cellIndex < length entries then entries ! cellIndex else None))"

text \<open>
  The \<open>for\<close> loop over the notebook's cells. \<open>profilingCells[cellIndex]\<close> is read for
  every cell, whatever its kind. An exception leaves the loop with the map as it is by
  then.
\<close>

fun cells_loop ::
  "cells_value \<Rightarrow> 'd notebook_cell list \<Rightarrow> nat \<Rightarrow> 'd decorations_map
   \<Rightarrow> 'd decorations_map \<times> error option" where
  "cells_loop profilingCells [] cellIndex m = (m, None)"
| "cells_loop profilingCells (cell # rest) cellIndex m =
     (case cell_entry profilingCells cellIndex of
        Inl err \<Rightarrow> (m, Some err)
      | Inr cellData \<Rightarrow>
          (case (kind cell, cellData, document cell) of
             (Code, Some cd, Some textDocument) \<Rightarrow>
               (case cell_decorations (getText textDocument) cd of
                  Inl err \<Rightarrow> (m, Some err)
                | Inr decorations \<Rightarrow>
                    cells_loop profilingCells rest (cellIndex + 1)
                      (Map_set m (uri textDocument) decorations))
           | _ \<Rightarrow> cells_loop profilingCells rest (cellIndex + 1) m))"

text \<open>
  The \<open>try\<close> block and its \<open>catch\<close>, from the outcome of \<open>JSON.parse\<close> on the file's
  text: the map is cleared first, the hover provider is registered after the message
  of success.
\<close>

definition annotate ::
  "error + profilingData \<Rightarrow> 'd notebook_cell list \<Rightarrow> 'd extension_state
   \<Rightarrow> 'd extension_state \<times> notification" where
  "annotate parsed allCells s =
     (case parsed of
        Inl err \<Rightarrow> (s\<lparr>cellDecorationsMap := Map_clear\<rparr>, FailedToParse err)
      | Inr data \<Rightarrow>
          (case cells_loop (cells data) allCells 0 Map_clear of
             (m, Some err) \<Rightarrow> (s\<lparr>cellDecorationsMap := m\<rparr>, FailedToParse err)
           | (m, None) \<Rightarrow>
               (\<lparr>cellDecorationsMap = m, hoverProviderRegistered = True\<rparr>, AnnotationsAdded)))"

text \<open>The callback of \<open>exec\<close>: the two early returns, then the \<open>try\<close> block.\<close>

datatype profiler_outcome =
  ExecFailed | OutputMissing | OutputRead "error + profilingData"

definition profileNotebook ::
  "profiler_outcome \<Rightarrow> 'd notebook_cell list \<Rightarrow> 'd extension_state
   \<Rightarrow> 'd extension_state \<times> notification" where
  "profileNotebook outcome allCells s =
     (case outcome of
        ExecFailed \<Rightarrow> (s, ProfilerError)
      | OutputMissing \<Rightarrow> (s, OutputNotFound)
      | OutputRead parsed \<Rightarrow> annotate parsed allCells s)"

section \<open>The hover provider\<close>

definition provideHover :: "'d decorations_map \<Rightarrow> 'd text_document \<Rightarrow> position \<Rightarrow> string option" where
  "provideHover m doc pos =
     (case Map_get m (uri doc) of
        None \<Rightarrow> None
      | Some decorations \<Rightarrow>
          (case find (\<lambda>d. line (range_start d) = line pos) decorations of
             None \<Rightarrow> None
           | Some match \<Rightarrow> Some (contentText match)))"

section \<open>The specification's wording, as definitions\<close>

text \<open>
  The five rules as the specification words them: a missing field counts as 0, and the
  average time per hit divides by the larger of the hit count and 1.
\<close>

definition classify_spec :: "'a stats_scheme \<Rightarrow> string" where
  "classify_spec r =
     (let pt = (case percent_time r of None \<Rightarrow> 0 | Some x \<Rightarrow> x);
          tt = (case total_time r of None \<Rightarrow> 0 | Some x \<Rightarrow> x);
          th = (case total_hits r of None \<Rightarrow> 0 | Some n \<Rightarrow> n);
          md = (case memory_delta_mb r of None \<Rightarrow> 0 | Some x \<Rightarrow> x);
          avg = tt / rat_of_nat (max th 1)
      in if pt > 30 then ''Performance-Critical''
         else if avg > 1000 then ''CPU-Intensive''
         else if th > 10000 \<and> avg < 100 then ''Loop-Intensive''
         else if md > 3 / 10 then ''Memory-Intensive''
         else ''Normal'')"

text \<open>
  A number with two decimal places: the hundredths nearest to it, written as the
  integer part, a point and two digits.
\<close>

definition two_decimals :: "rat \<Rightarrow> string" where
  "two_decimals x =
     (let h = round_half_up (\<bar>x\<bar> * 100)
      in (if x < 0 then ''-'' else []) @ decimal (h div 100) @ ''.''
         @ [digit_char (h div 10 mod 10), digit_char (h mod 10)])"

text \<open>
  A normal binary64 value, by its significand of 53 bits and the exponent of its last
  place: \<open>m * 2^q\<close>.
\<close>

definition normal64 :: "int \<Rightarrow> int \<Rightarrow> bool" where
  "normal64 m q \<longleftrightarrow> 2 ^ 52 \<le> m \<and> m < 2 ^ 53 \<and> - 1074 \<le> q"

text \<open>The time formatter as the specification words it, on microseconds.\<close>

definition format_spec :: "rat option \<Rightarrow> string" where
  "format_spec rawDuration =
     (case rawDuration of
        None \<Rightarrow> ''N/A''
      | Some raw \<Rightarrow>
          if raw = 0 then ''N/A''
          else
            let us = raw / 10
            in if us \<ge> 60000000 then two_decimals (us / 60000000) @ '' min''
               else if us \<ge> 1000000 then two_decimals (us / 1000000) @ '' s''
               else if us \<ge> 1000 then two_decimals (us / 1000) @ '' ms''
               else two_decimals us @ '' '' @ micro_sign @ ''s'')"

text \<open>
  The text of a line record as the specification words it: one space on each side of
  the bar, and \<open>N/A\<close> for a percentage that is absent.
\<close>

definition line_text_spec :: "line_stats \<Rightarrow> string" where
  "line_text_spec lineData =
     stopwatch @ '' '' @ formatTime (time lineData) @ '' | '' @ high_voltage @ '' ''
     @ (case percent lineData of None \<Rightarrow> ''N/A'' | Some p \<Rightarrow> two_decimals p) @ ''%''"

text \<open>
  The documents a run touches: those of the code cells that have an entry in the report
  and a document, in the notebook's order, each with the decorations built for it.
\<close>

fun touched ::
  "cells_value \<Rightarrow> 'd notebook_cell list \<Rightarrow> nat \<Rightarrow> ('d \<times> decoration list) list" where
  "touched profilingCells [] cellIndex = []"
| "touched profilingCells (cell # rest) cellIndex =
     (case (kind cell, cell_entry profilingCells cellIndex, document cell) of
        (Code, Inr (Some cd), Some textDocument) \<Rightarrow>
          (case cell_decorations (getText textDocument) cd of
             Inl err \<Rightarrow> touched profilingCells rest (cellIndex + 1)
           | Inr decorations \<Rightarrow>
               (uri textDocument, decorations) # touched profilingCells rest (cellIndex + 1))
      | _ \<Rightarrow> touched profilingCells rest (cellIndex + 1))"

section \<open>A notebook and its report\<close>

text \<open>
  A cell of three lines, \<open>a\<close>, \<open>b\<close> and \<open>c\<close>; report entries for its lines 1, 3 and 7;
  a line that took no measurable share of the run; an entry without \<open>lines\<close>.
\<close>

definition example_line :: line_stats where
  "example_line = \<lparr>percent_time = None, total_time = None, total_hits = None,
     memory_delta_mb = None, time = Some 10000, percent = Some (25 / 2)\<rparr>"

definition idle_line :: line_stats where
  "idle_line = \<lparr>percent_time = None, total_time = None, total_hits = None,
     memory_delta_mb = None, time = Some 10000, percent = Some 0\<rparr>"

definition example_cell :: cell_stats where
  "example_cell = \<lparr>percent_time = Some 35, total_time = Some 600000000, total_hits = Some 3,
     memory_delta_mb = None,
     lines = Some [([0x31], example_line), ([0x33], example_line), ([0x37], example_line)]\<rparr>"

definition no_lines_cell :: cell_stats where
  "no_lines_cell = \<lparr>percent_time = Some 35, total_time = Some 600000000, total_hits = Some 3,
     memory_delta_mb = None, lines = None\<rparr>"

definition example_document :: "nat text_document" where
  "example_document = \<lparr>uri = 7, getText = [0x61, 0x0A, 0x62, 0x0A, 0x63]\<rparr>"

text \<open>The state a previous run left, and the state after a run on the example.\<close>

definition example_state :: "nat extension_state" where
  "example_state =
     \<lparr>cellDecorationsMap = [(7, [summary_decoration [[0x61]] example_cell])],
      hoverProviderRegistered = True\<rparr>"

definition hover_state :: "nat extension_state" where
  "hover_state =
     fst (profileNotebook (OutputRead (Inr \<lparr>cells = CellsArray [Some example_cell]\<rparr>))
       [\<lparr>kind = Code, document = Some example_document\<rparr>] example_state)"

section \<open>Digits\<close>

lemma decimal_small: "n < 10 \<Longrightarrow> decimal n = [digit_char n]"
  by (simp add: decimal.simps)

lemma decimal_large: "\<not> n < 10 \<Longrightarrow> decimal n = decimal (n div 10) @ [digit_char (n mod 10)]"
  by (subst decimal.simps) simp

lemma decimal_nonempty: "decimal n \<noteq> []"
  by (subst decimal.simps) simp

lemma floor_rat_numeral_div: "\<lfloor>numeral a / numeral b :: rat\<rfloor> = numeral a div numeral b"
  using floor_divide_of_int_eq [of "numeral a" "numeral b", where ?'a = rat] by simp

lemma floor_rat_neg_numeral_div:
  "\<lfloor>- (numeral a / numeral b) :: rat\<rfloor> = - numeral a div numeral b"
  using floor_divide_of_int_eq [of "- numeral a" "numeral b", where ?'a = rat] by simp

lemma bit_length_0: "bit_length 0 = 0"
  by (simp add: bit_length.simps)

lemma bit_length_pos: "0 < n \<Longrightarrow> bit_length n = Suc (bit_length (n div 2))"
  by (subst bit_length.simps) simp

text \<open>The rules that evaluate a quotient and a rendering at a numeral.\<close>

lemmas binary64_eval =
  divide64_def binary64_def ilog2_def round_half_even_def pow2_def bit_length_0
  bit_length_pos floor_rat_numeral_div floor_rat_neg_numeral_div Let_def

lemmas render =
  decimal_small decimal_large digit_char_def numberToString_def exponential_def
  strip_zeros_def toFixed_def toFixed_abs_def fixed_digits_def round_half_up_def
  formatTime_def falsy_def or_else_def binary64_eval

lemma decimal_hundreds:
  "decimal n =
     (if n < 10 then [digit_char n]
      else if n < 100 then [digit_char (n div 10), digit_char (n mod 10)]
      else decimal (n div 100) @ [digit_char (n div 10 mod 10), digit_char (n mod 10)])"
proof -
  have a: "n div 10 div 10 = n div 100" by (simp add: div_mult2_eq)
  have c: "n div 10 < 10 \<longleftrightarrow> n < 100" by (simp add: div_less_iff_less_mult)
  show ?thesis
  proof (cases "n < 10")
    case True
    then show ?thesis by (simp add: decimal_small)
  next
    case False
    note big = this
    show ?thesis
    proof (cases "n < 100")
      case True
      with big c show ?thesis by (simp add: decimal_large [of n] decimal_small)
    next
      case False
      with big c have "\<not> n div 10 < 10" by simp
      with big False show ?thesis
        by (simp add: decimal_large [of n] decimal_large [of "n div 10"] a)
    qed
  qed
qed

lemma fixed_digits_2:
  "fixed_digits x 2 =
     decimal (round_half_up (x * 100) div 100) @ ''.''
     @ [digit_char (round_half_up (x * 100) div 10 mod 10),
        digit_char (round_half_up (x * 100) mod 10)]"
proof -
  define h where "h = round_half_up (x * 100)"
  have fd: "fixed_digits x 2 =
     (let m = decimal h; m' = replicate (3 - length m) CHR ''0'' @ m
      in take (length m' - 2) m' @ ''.'' @ drop (length m' - 2) m')"
    by (simp add: fixed_digits_def h_def)
  consider "h < 10" | "\<not> h < 10" "h < 100" | "\<not> h < 10" "\<not> h < 100" by blast
  then have "fixed_digits x 2 =
     decimal (h div 100) @ ''.'' @ [digit_char (h div 10 mod 10), digit_char (h mod 10)]"
  proof cases
    case 1
    then have "decimal h = [digit_char h]" "decimal (h div 100) = [digit_char 0]"
      by (simp_all add: decimal_small)
    with 1 show ?thesis
      unfolding fd Let_def by (simp add: digit_char_def numeral_2_eq_2)
  next
    case 2
    then have "decimal h = [digit_char (h div 10), digit_char (h mod 10)]"
      "decimal (h div 100) = [digit_char 0]"
      by (simp_all add: decimal_hundreds [of h] decimal_small)
    with 2 show ?thesis
      unfolding fd Let_def by (simp add: digit_char_def)
  next
    case 3
    then have "decimal h =
        decimal (h div 100) @ [digit_char (h div 10 mod 10), digit_char (h mod 10)]"
      by (simp add: decimal_hundreds [of h])
    then show ?thesis
      unfolding fd Let_def using decimal_nonempty [of "h div 100"]
      by (simp add: Suc_le_eq)
  qed
  then show ?thesis by (simp add: h_def)
qed

lemma toFixed_two_decimals:
  assumes "\<bar>x\<bar> < 10 ^ 21"
  shows "toFixed x 2 = two_decimals x"
  using assms
  by (auto simp: toFixed_def toFixed_abs_def two_decimals_def fixed_digits_2 Let_def abs_if)

section \<open>Rounding to binary64\<close>

lemma pow2_pos: "0 < pow2 k"
  by (simp add: pow2_def)

lemma pow2_add: "pow2 (a + b) = pow2 a * pow2 b"
proof -
  have "pow2 k = 2 powi k" for k
    by (simp add: pow2_def power_int_def power_one_over)
  then show ?thesis by (simp add: power_int_add)
qed

lemma pow2_nat: "pow2 (int n) = 2 ^ n"
  by (simp add: pow2_def)

lemma pow2_mono: "a \<le> b \<Longrightarrow> pow2 a \<le> pow2 b"
proof -
  assume "a \<le> b"
  then obtain n where "b = a + int n" by (metis nonneg_int_cases diff_ge_0_iff_ge add_diff_cancel_left' add.commute diff_add_cancel)
  then have "pow2 b = pow2 a * 2 ^ n" by (simp add: pow2_add pow2_nat)
  moreover have "(1::rat) \<le> 2 ^ n" by simp
  ultimately show ?thesis using pow2_pos [of a] by (simp add: mult_le_cancel_left1)
qed

lemma pow2_less_imp: "pow2 a < pow2 b \<Longrightarrow> a < b"
  using pow2_mono [of b a] by (cases "a < b") auto

lemma bit_length_bounds:
  "0 < n \<Longrightarrow> 2 ^ (bit_length n - 1) \<le> n \<and> n < 2 ^ bit_length n"
proof (induction n rule: bit_length.induct)
  case (1 n)
  show ?case
  proof (cases "n div 2 = 0")
    case True
    with 1(2) have "n = 1" by (simp add: div_eq_0_iff) 
    then show ?thesis by (simp add: bit_length_pos bit_length_0)
  next
    case False
    with 1 have ih: "2 ^ (bit_length (n div 2) - 1) \<le> n div 2" "n div 2 < 2 ^ bit_length (n div 2)"
      by auto
    from False have "0 < bit_length (n div 2)" by (simp add: bit_length_pos)
    then obtain b where b: "bit_length (n div 2) = Suc b" by (cases "bit_length (n div 2)") auto
    have bl: "bit_length n = Suc (Suc b)" using 1(2) b by (simp add: bit_length_pos)
    from ih b have "2 * 2 ^ b \<le> 2 * (n div 2)" "2 * (n div 2) + 2 \<le> 2 * 2 ^ Suc b" by auto
    moreover have "2 * (n div 2) \<le> n" "n < 2 * (n div 2) + 2" by auto
    ultimately show ?thesis unfolding bl by auto
  qed
qed

lemma bit_length_gt0: "0 < n \<Longrightarrow> 0 < bit_length n"
  by (simp add: bit_length_pos)

lemma bit_length_bounds_rat:
  assumes "0 < n" "bit_length n = Suc b"
  shows "(2::rat) ^ b \<le> rat_of_nat n" "rat_of_nat n + 1 \<le> 2 ^ Suc b"
proof -
  from bit_length_bounds [OF assms(1)] assms(2) have "2 ^ b \<le> n" "n + 1 \<le> 2 ^ Suc b" by auto
  then have "rat_of_nat (2 ^ b) \<le> rat_of_nat n" "rat_of_nat (n + 1) \<le> rat_of_nat (2 ^ Suc b)"
    by (simp_all only: of_nat_le_iff)
  then show "(2::rat) ^ b \<le> rat_of_nat n" "rat_of_nat n + 1 \<le> 2 ^ Suc b" by simp_all
qed

lemma pow2_neg_nat: "pow2 (- int n) = 1 / 2 ^ n"
proof -
  have "pow2 (- int n) * pow2 (int n) = pow2 0"
    using pow2_add [of "- int n" "int n"] by simp
  then have "pow2 (- int n) * 2 ^ n = 1" by (simp add: pow2_nat) (simp add: pow2_def)
  then show ?thesis by (simp add: field_simps)
qed

lemma ilog2_bounds:
  assumes "0 < a"
  shows "pow2 (ilog2 a) \<le> a \<and> a < pow2 (ilog2 a + 1)"
proof (cases "1 \<le> a")
  case True
  define n where "n = nat \<lfloor>a\<rfloor>"
  have f0: "1 \<le> \<lfloor>a\<rfloor>" using True by simp
  then have n1: "0 < n" by (simp add: n_def)
  have "rat_of_nat n = of_int \<lfloor>a\<rfloor>" using f0 by (simp add: n_def)
  moreover have "of_int \<lfloor>a\<rfloor> \<le> a" "a < of_int \<lfloor>a\<rfloor> + 1" by linarith+
  ultimately have na: "rat_of_nat n \<le> a" "a < rat_of_nat n + 1"
    by simp_all
  obtain b where b: "bit_length n = Suc b"
    using bit_length_gt0 [OF n1] by (cases "bit_length n") auto
  have il: "ilog2 a = int b" using True b by (simp add: ilog2_def n_def)
  from bit_length_bounds_rat [OF n1 b] na have "(2::rat) ^ b \<le> a" "a < 2 ^ Suc b" by linarith+
  moreover have "pow2 (int b) = 2 ^ b" "pow2 (int b + 1) = 2 ^ Suc b"
    by (simp_all add: pow2_def nat_add_distrib)
  ultimately show ?thesis unfolding il by simp
next
  case False
  define c where "c = \<lceil>1 / a\<rceil>"
  define k where "k = nat c - 1"
  have b1: "1 < 1 / a" using assms False by simp
  then have c2: "2 \<le> c" unfolding c_def by linarith
  have k1: "0 < k" using c2 by (simp add: k_def)
  have "rat_of_nat k = rat_of_int (int k)" by simp
  also have "int k = c - 1" using c2 by (simp add: k_def)
  finally have kc: "rat_of_nat k = of_int c - 1" by simp
  have cb: "1 / a \<le> of_int c" "of_int c - 1 < 1 / a"
    unfolding c_def by linarith+
  obtain b where b: "bit_length k = Suc b"
    using bit_length_gt0 [OF k1] by (cases "bit_length k") auto
  have "- \<lfloor>- (1 / a)\<rfloor> = c" by (simp add: c_def ceiling_def)
  then have il: "ilog2 a = - int (Suc b)" using False b by (simp add: ilog2_def k_def)
  from bit_length_bounds_rat [OF k1 b] kc cb
  have r: "(2::rat) ^ b < 1 / a" "1 / a \<le> 2 ^ Suc b" by linarith+
  have "- int (Suc b) + 1 = - int b" by simp
  then have p: "pow2 (- int (Suc b)) = 1 / 2 ^ Suc b" "pow2 (- int (Suc b) + 1) = 1 / 2 ^ b"
    by (simp_all only: pow2_neg_nat)
  have "1 / 2 ^ Suc b \<le> a"
    using r(2) assms by (simp add: field_simps)
  moreover have "a < 1 / 2 ^ b"
    using r(1) assms by (simp add: field_simps)
  ultimately show ?thesis unfolding il p by simp
qed

lemma round_half_even_cases:
  "round_half_even r = \<lfloor>r\<rfloor> \<or> round_half_even r = \<lfloor>r\<rfloor> + 1"
  by (simp add: round_half_even_def Let_def)

lemma round_half_even_int: "round_half_even (of_int j) = j"
  by (simp add: round_half_even_def)

lemma round_half_even_ge: "of_int j \<le> r \<Longrightarrow> j \<le> round_half_even r"
proof -
  assume "of_int j \<le> r"
  then have "j \<le> \<lfloor>r\<rfloor>" by (simp add: le_floor_iff)
  with round_half_even_cases [of r] show ?thesis by auto
qed

lemma round_half_even_le: "r \<le> of_int j \<Longrightarrow> round_half_even r \<le> j"
proof -
  assume a: "r \<le> of_int j"
  from floor_mono [OF a] have f: "\<lfloor>r\<rfloor> \<le> j" by simp
  show ?thesis
  proof (cases "\<lfloor>r\<rfloor> = j")
    case True
    then have "of_int j \<le> r" using of_int_floor_le [of r] by simp
    with a have "r = of_int j" by simp
    then show ?thesis by (simp add: round_half_even_int)
  next
    case False
    with f have "\<lfloor>r\<rfloor> + 1 \<le> j" by simp
    with round_half_even_cases [of r] f show ?thesis by auto
  qed
qed

lemma round_half_even_nonneg: "0 \<le> r \<Longrightarrow> 0 \<le> round_half_even r"
  using round_half_even_ge [of 0 r] by simp

lemma round_half_even_le_twice: "0 \<le> r \<Longrightarrow> of_int (round_half_even r) \<le> 2 * r"
proof -
  assume r: "0 \<le> r"
  have fl: "of_int \<lfloor>r\<rfloor> \<le> r" by simp
  show ?thesis
  proof (cases "r - of_int \<lfloor>r\<rfloor> < 1 / 2")
    case True
    then have "rat_of_int (round_half_even r) = of_int \<lfloor>r\<rfloor>" by (simp add: round_half_even_def)
    with fl r show ?thesis by linarith
  next
    case False
    then have h: "1 / 2 \<le> r - of_int \<lfloor>r\<rfloor>" by simp
    have "0 \<le> \<lfloor>r\<rfloor>" using r by simp
    then have z: "(0::rat) \<le> of_int \<lfloor>r\<rfloor>" by simp
    have "round_half_even r \<le> \<lfloor>r\<rfloor> + 1" using round_half_even_cases [of r] by auto
    then have "rat_of_int (round_half_even r) \<le> rat_of_int (\<lfloor>r\<rfloor> + 1)"
      by (simp only: of_int_le_iff)
    then have "rat_of_int (round_half_even r) \<le> of_int \<lfloor>r\<rfloor> + 1" by simp
    with h z show ?thesis by linarith
  qed
qed

lemma binary64_pos:
  "0 < x \<Longrightarrow> binary64 x =
     of_int (round_half_even (x / pow2 (max (ilog2 x - 52) (- 1074))))
       * pow2 (max (ilog2 x - 52) (- 1074))"
  by (simp add: binary64_def Let_def)

lemma binary64_nonneg: "0 \<le> x \<Longrightarrow> 0 \<le> binary64 x"
proof (cases "x = 0")
  case True
  then show ?thesis by (simp add: binary64_def)
next
  case False
  assume "0 \<le> x"
  with False have x: "0 < x" by simp
  let ?q = "max (ilog2 x - 52) (- 1074)"
  have "0 \<le> x / pow2 ?q" using x pow2_pos [of ?q] by simp
  then have "0 \<le> round_half_even (x / pow2 ?q)" by (rule round_half_even_nonneg)
  then have "(0::rat) \<le> of_int (round_half_even (x / pow2 ?q))" by simp
  then show ?thesis
    unfolding binary64_pos [OF x] using pow2_pos [of ?q] by simp
qed

lemma binary64_minus: "binary64 (- x) = - binary64 x"
  by (simp add: binary64_def Let_def)

lemma binary64_nonpos: "x \<le> 0 \<Longrightarrow> binary64 x \<le> 0"
  using binary64_nonneg [of "- x"] by (simp add: binary64_minus)

lemma pow2_53: "pow2 (q + 53) = 2 ^ 53 * pow2 q" "pow2 (q + 52) = 2 ^ 52 * pow2 q"
  using pow2_add [of 53 q] pow2_add [of 52 q] by (simp_all add: pow2_def add.commute)

lemma pow2_diff: "q \<le> q0 \<Longrightarrow> pow2 q0 = 2 ^ nat (q0 - q) * pow2 q"
  using pow2_add [of "q0 - q" q] pow2_nat [of "nat (q0 - q)"] by simp

lemma binary64_le:
  assumes n: "normal64 m q0" and le: "x \<le> of_int m * pow2 q0"
  shows "binary64 x \<le> of_int m * pow2 q0"
proof (cases "0 < x")
  case False
  then have "binary64 x \<le> 0" by (simp add: binary64_nonpos)
  moreover have "(0::rat) \<le> of_int m * pow2 q0"
    using n pow2_pos [of q0] by (simp add: normal64_def)
  ultimately show ?thesis by simp
next
  case True
  let ?e = "ilog2 x"
  let ?q = "max (?e - 52) (- 1074)"
  have m53: "rat_of_int m < 2 ^ 53" using n by (simp add: normal64_def)
  have "pow2 ?e \<le> x" using ilog2_bounds [OF True] by simp
  also have "x \<le> of_int m * pow2 q0" by (rule le)
  also have "\<dots> < 2 ^ 53 * pow2 q0" using m53 pow2_pos [of q0] by simp
  also have "\<dots> = pow2 (q0 + 53)" by (simp add: pow2_53)
  finally have "?e < q0 + 53" by (rule pow2_less_imp)
  then have q: "?q \<le> q0" using n by (simp add: normal64_def)
  let ?j = "m * 2 ^ nat (q0 - ?q)"
  have c: "of_int m * pow2 q0 = of_int ?j * pow2 ?q"
    using pow2_diff [OF q] by simp
  have "x / pow2 ?q \<le> of_int ?j"
    using le pow2_pos [of ?q] unfolding c by (simp add: field_simps)
  then have "round_half_even (x / pow2 ?q) \<le> ?j" by (rule round_half_even_le)
  then have "rat_of_int (round_half_even (x / pow2 ?q)) \<le> of_int ?j"
    by (simp only: of_int_le_iff)
  then have "of_int (round_half_even (x / pow2 ?q)) * pow2 ?q \<le> of_int ?j * pow2 ?q"
    using pow2_pos [of ?q] by (simp only: mult_le_cancel_right_pos)
  then show ?thesis unfolding binary64_pos [OF True] c .
qed

lemma binary64_ge:
  assumes n: "normal64 m q0" and ge: "of_int m * pow2 q0 \<le> x"
  shows "of_int m * pow2 q0 \<le> binary64 x"
proof -
  have m52: "(2::rat) ^ 52 \<le> of_int m" "rat_of_int m < 2 ^ 53"
    using n by (simp_all add: normal64_def)
  have cpos: "0 < of_int m * pow2 q0" using m52 pow2_pos [of q0] by simp
  with ge have x: "0 < x" by simp
  let ?e = "ilog2 x"
  let ?q = "max (?e - 52) (- 1074)"
  have "pow2 (q0 + 52) = 2 ^ 52 * pow2 q0" by (simp add: pow2_53)
  also have "\<dots> \<le> of_int m * pow2 q0" using m52 pow2_pos [of q0] by simp
  also have "\<dots> \<le> x" by (rule ge)
  also have "x < pow2 (?e + 1)" using ilog2_bounds [OF x] by simp
  finally have "q0 + 52 < ?e + 1" by (rule pow2_less_imp)
  then have e: "q0 \<le> ?e - 52" by simp
  then have qe: "?q = ?e - 52" using n by (simp add: normal64_def)
  show ?thesis
  proof (cases "?e - 52 = q0")
    case True
    with qe have q: "?q = q0" by simp
    have "of_int m \<le> x / pow2 q0" using ge pow2_pos [of q0] by (simp add: field_simps)
    then have "m \<le> round_half_even (x / pow2 q0)" by (rule round_half_even_ge)
    then have "rat_of_int m \<le> of_int (round_half_even (x / pow2 q0))"
      by (simp only: of_int_le_iff)
    then have "of_int m * pow2 q0 \<le> of_int (round_half_even (x / pow2 q0)) * pow2 q0"
      using pow2_pos [of q0] by (simp only: mult_le_cancel_right_pos)
    then show ?thesis unfolding binary64_pos [OF x] q .
  next
    case False
    with e have lt: "q0 + 53 \<le> ?e" by simp
    have pe: "pow2 ?e = 2 ^ 52 * pow2 ?q" using pow2_53(2) [of ?q] qe by simp
    have "pow2 ?e \<le> x" using ilog2_bounds [OF x] by simp
    then have "of_int (2 ^ 52) \<le> x / pow2 ?q"
      using pow2_pos [of ?q] unfolding pe by (simp add: field_simps)
    then have "2 ^ 52 \<le> round_half_even (x / pow2 ?q)" by (rule round_half_even_ge)
    then have "rat_of_int (2 ^ 52) \<le> of_int (round_half_even (x / pow2 ?q))"
      by (simp only: of_int_le_iff)
    then have "of_int (2 ^ 52) * pow2 ?q \<le> of_int (round_half_even (x / pow2 ?q)) * pow2 ?q"
      using pow2_pos [of ?q] by (simp only: mult_le_cancel_right_pos)
    then have "pow2 ?e \<le> binary64 x" unfolding binary64_pos [OF x] pe by simp
    moreover have "of_int m * pow2 q0 \<le> pow2 (q0 + 53)"
      using m52 pow2_pos [of q0] by (simp add: pow2_53)
    moreover have "pow2 (q0 + 53) \<le> pow2 ?e" using lt by (rule pow2_mono)
    ultimately show ?thesis by linarith
  qed
qed

lemma binary64_abs_le: "\<bar>binary64 x\<bar> \<le> 2 * \<bar>x\<bar>"
proof -
  have pos: "binary64 y \<le> 2 * y" if "0 < y" for y
  proof -
    let ?q = "max (ilog2 y - 52) (- 1074)"
    have "0 \<le> y / pow2 ?q" using that pow2_pos [of ?q] by simp
    then have "of_int (round_half_even (y / pow2 ?q)) \<le> 2 * (y / pow2 ?q)"
      by (rule round_half_even_le_twice)
    then have "of_int (round_half_even (y / pow2 ?q)) * pow2 ?q \<le> 2 * (y / pow2 ?q) * pow2 ?q"
      using pow2_pos [of ?q] by (simp only: mult_le_cancel_right_pos)
    then show ?thesis unfolding binary64_pos [OF that] using pow2_pos [of ?q] by simp
  qed
  consider "x = 0" | "0 < x" | "x < 0" by linarith
  then show ?thesis
  proof cases
    case 1
    then show ?thesis by (simp add: binary64_def)
  next
    case 2
    with pos [OF 2] binary64_nonneg [of x] show ?thesis by simp
  next
    case 3
    then have "0 < - x" by simp
    from pos [OF this] binary64_nonneg [of "- x"] 3 show ?thesis
      by (simp add: binary64_minus)
  qed
qed

lemma binary64_pred:
  assumes n: "normal64 m q0" and fp: "binary64 x = x"
    and lt: "x < of_int (m + 1) * pow2 q0"
  shows "x \<le> of_int m * pow2 q0"
proof (rule ccontr)
  assume "\<not> x \<le> of_int m * pow2 q0"
  then have gt: "of_int m * pow2 q0 < x" by simp
  have m52: "(2::rat) ^ 52 \<le> of_int m" "rat_of_int (m + 1) \<le> 2 ^ 53"
    using n by (simp_all add: normal64_def)
  have "0 < of_int m * pow2 q0" using m52 pow2_pos [of q0] by simp
  with gt have x: "0 < x" by simp
  let ?e = "ilog2 x"
  have "pow2 (q0 + 52) = 2 ^ 52 * pow2 q0" by (simp add: pow2_53)
  also have "\<dots> \<le> of_int m * pow2 q0" using m52 pow2_pos [of q0] by simp
  also have "\<dots> < x" by (rule gt)
  also have "x < pow2 (?e + 1)" using ilog2_bounds [OF x] by simp
  finally have "q0 + 52 < ?e + 1" by (rule pow2_less_imp)
  moreover have "?e < q0 + 53"
  proof (rule pow2_less_imp)
    have "pow2 ?e \<le> x" using ilog2_bounds [OF x] by simp
    also have "x < of_int (m + 1) * pow2 q0" by (rule lt)
    also have "\<dots> \<le> 2 ^ 53 * pow2 q0"
      using m52 pow2_pos [of q0] by (simp only: mult_le_cancel_right_pos)
    also have "\<dots> = pow2 (q0 + 53)" by (simp add: pow2_53)
    finally show "pow2 ?e < pow2 (q0 + 53)" .
  qed
  ultimately have "?e - 52 = q0" by simp
  then have q: "max (?e - 52) (- 1074) = q0" using n by (simp add: normal64_def)
  define k where "k = round_half_even (x / pow2 q0)"
  have "x = of_int k * pow2 q0"
    using fp unfolding binary64_pos [OF x] q k_def by simp
  with gt lt have "of_int m * pow2 q0 < of_int k * pow2 q0"
    "of_int k * pow2 q0 < of_int (m + 1) * pow2 q0" by simp_all
  then have "rat_of_int m < of_int k" "rat_of_int k < of_int (m + 1)"
    using pow2_pos [of q0] by (simp_all only: mult_less_cancel_right_pos)
  then have "m < k" "k < m + 1" by (simp_all only: of_int_less_iff)
  then show False by simp
qed

lemma binary64_le_mid:
  assumes n: "normal64 m q0" and lt: "x < (of_int m + 1 / 2) * pow2 q0"
  shows "binary64 x \<le> of_int m * pow2 q0"
proof (cases "x \<le> of_int m * pow2 q0")
  case True
  with n show ?thesis by (rule binary64_le)
next
  case False
  then have gt: "of_int m * pow2 q0 < x" by simp
  have m52: "(2::rat) ^ 52 \<le> of_int m" "rat_of_int m + 1 / 2 \<le> 2 ^ 53"
    using n by (simp_all add: normal64_def)
  have "0 < of_int m * pow2 q0" using m52 pow2_pos [of q0] by simp
  with gt have x: "0 < x" by simp
  let ?e = "ilog2 x"
  have "pow2 (q0 + 52) = 2 ^ 52 * pow2 q0" by (simp add: pow2_53)
  also have "\<dots> \<le> of_int m * pow2 q0" using m52 pow2_pos [of q0] by simp
  also have "\<dots> < x" by (rule gt)
  also have "x < pow2 (?e + 1)" using ilog2_bounds [OF x] by simp
  finally have "q0 + 52 < ?e + 1" by (rule pow2_less_imp)
  moreover have "?e < q0 + 53"
  proof (rule pow2_less_imp)
    have "pow2 ?e \<le> x" using ilog2_bounds [OF x] by simp
    also have "x < (of_int m + 1 / 2) * pow2 q0" by (rule lt)
    also have "\<dots> \<le> 2 ^ 53 * pow2 q0"
      using m52 pow2_pos [of q0] by (simp only: mult_le_cancel_right_pos)
    also have "\<dots> = pow2 (q0 + 53)" by (simp add: pow2_53)
    finally show "pow2 ?e < pow2 (q0 + 53)" .
  qed
  ultimately have "?e - 52 = q0" by simp
  then have q: "max (?e - 52) (- 1074) = q0" using n by (simp add: normal64_def)
  let ?r = "x / pow2 q0"
  have r: "of_int m < ?r" "?r < of_int m + 1 / 2"
    using gt lt pow2_pos [of q0] by (simp_all add: field_simps)
  then have "\<lfloor>?r\<rfloor> = m" by (simp add: floor_unique)
  moreover from this r have "?r - of_int \<lfloor>?r\<rfloor> < 1 / 2" by linarith
  then have "round_half_even ?r = \<lfloor>?r\<rfloor>" by (simp add: round_half_even_def)
  ultimately have "round_half_even ?r = m" by simp
  then show ?thesis unfolding binary64_pos [OF x] q by simp
qed

lemma divide64_le:
  assumes "normal64 m q" "x \<le> b" "0 < d" "b / d < (of_int m + 1 / 2) * pow2 q"
  shows "divide64 x d \<le> of_int m * pow2 q"
proof -
  have "x / d \<le> b / d" using assms(2,3) by (simp add: divide_right_mono)
  with assms(4) have "x / d < (of_int m + 1 / 2) * pow2 q" by simp
  with assms(1) show ?thesis unfolding divide64_def by (rule binary64_le_mid)
qed

lemma divide64_ge:
  assumes "normal64 m q" "b \<le> x" "0 < d" "of_int m * pow2 q \<le> b / d"
  shows "of_int m * pow2 q \<le> divide64 x d"
proof -
  have "b / d \<le> x / d" using assms(2,3) by (simp add: divide_right_mono)
  with assms(4) have "of_int m * pow2 q \<le> x / d" by simp
  with assms(1) show ?thesis unfolding divide64_def by (rule binary64_ge)
qed

lemma milliseconds_ge:
  assumes "10000 \<le> raw"
  shows "1 \<le> divide64 (divide64 raw 10) 1000"
proof -
  have 1: "of_int 8796093022208000 * pow2 (- 43) \<le> divide64 raw 10"
    by (rule divide64_ge [where b = 10000]) (simp_all add: normal64_def pow2_def assms)
  have "of_int 4503599627370496 * pow2 (- 52) \<le> divide64 (divide64 raw 10) 1000"
    by (rule divide64_ge [OF _ 1]) (simp_all add: normal64_def pow2_def)
  then show ?thesis by (simp add: pow2_def)
qed

lemma seconds_ge:
  assumes "10000000 \<le> raw"
  shows "1 \<le> divide64 (divide64 (divide64 raw 10) 1000) 1000"
proof -
  have 1: "of_int 8589934592000000 * pow2 (- 33) \<le> divide64 raw 10"
    by (rule divide64_ge [where b = 10000000]) (simp_all add: normal64_def pow2_def assms)
  have 2: "of_int 8796093022208000 * pow2 (- 43) \<le> divide64 (divide64 raw 10) 1000"
    by (rule divide64_ge [OF _ 1]) (simp_all add: normal64_def pow2_def)
  have "of_int 4503599627370496 * pow2 (- 52)
      \<le> divide64 (divide64 (divide64 raw 10) 1000) 1000"
    by (rule divide64_ge [OF _ 2]) (simp_all add: normal64_def pow2_def)
  then show ?thesis by (simp add: pow2_def)
qed

lemma minutes_ge:
  assumes "600000000 \<le> raw"
  shows "1 \<le> divide64 (divide64 (divide64 (divide64 raw 10) 1000) 1000) 60"
proof -
  have 1: "of_int 8053063680000000 * pow2 (- 27) \<le> divide64 raw 10"
    by (rule divide64_ge [where b = 600000000]) (simp_all add: normal64_def pow2_def assms)
  have 2: "of_int 8246337208320000 * pow2 (- 37) \<le> divide64 (divide64 raw 10) 1000"
    by (rule divide64_ge [OF _ 1]) (simp_all add: normal64_def pow2_def)
  have 3: "of_int 8444249301319680 * pow2 (- 47)
      \<le> divide64 (divide64 (divide64 raw 10) 1000) 1000"
    by (rule divide64_ge [OF _ 2]) (simp_all add: normal64_def pow2_def)
  have "of_int 4503599627370496 * pow2 (- 52)
      \<le> divide64 (divide64 (divide64 (divide64 raw 10) 1000) 1000) 60"
    by (rule divide64_ge [OF _ 3]) (simp_all add: normal64_def pow2_def)
  then show ?thesis by (simp add: pow2_def)
qed

lemma milliseconds_lt:
  assumes "binary64 raw = raw" "raw < 10000"
  shows "divide64 (divide64 raw 10) 1000 < 1"
proof -
  have 0: "raw \<le> of_int 5497558138879999 * pow2 (- 39)"
    using assms(2) by (intro binary64_pred [OF _ assms(1)]) (simp_all add: normal64_def pow2_def)
  have 1: "divide64 raw 10 \<le> of_int 8796093022207998 * pow2 (- 43)"
    by (rule divide64_le [OF _ 0]) (simp_all add: normal64_def pow2_def)
  have "divide64 (divide64 raw 10) 1000 \<le> of_int 9007199254740990 * pow2 (- 53)"
    by (rule divide64_le [OF _ 1]) (simp_all add: normal64_def pow2_def)
  then show ?thesis by (simp add: pow2_def)
qed

lemma seconds_lt:
  assumes "binary64 raw = raw" "raw < 10000000"
  shows "divide64 (divide64 (divide64 raw 10) 1000) 1000 < 1"
proof -
  have 0: "raw \<le> of_int 5368709119999999 * pow2 (- 29)"
    using assms(2) by (intro binary64_pred [OF _ assms(1)]) (simp_all add: normal64_def pow2_def)
  have 1: "divide64 raw 10 \<le> of_int 8589934591999998 * pow2 (- 33)"
    by (rule divide64_le [OF _ 0]) (simp_all add: normal64_def pow2_def)
  have 2: "divide64 (divide64 raw 10) 1000 \<le> of_int 8796093022207998 * pow2 (- 43)"
    by (rule divide64_le [OF _ 1]) (simp_all add: normal64_def pow2_def)
  have "divide64 (divide64 (divide64 raw 10) 1000) 1000
      \<le> of_int 9007199254740990 * pow2 (- 53)"
    by (rule divide64_le [OF _ 2]) (simp_all add: normal64_def pow2_def)
  then show ?thesis by (simp add: pow2_def)
qed

lemma minutes_lt:
  assumes "binary64 raw = raw" "raw < 600000000"
  shows "divide64 (divide64 (divide64 (divide64 raw 10) 1000) 1000) 60 < 1"
proof -
  have 0: "raw \<le> of_int 5033164799999999 * pow2 (- 23)"
    using assms(2) by (intro binary64_pred [OF _ assms(1)]) (simp_all add: normal64_def pow2_def)
  have 1: "divide64 raw 10 \<le> of_int 8053063679999998 * pow2 (- 27)"
    by (rule divide64_le [OF _ 0]) (simp_all add: normal64_def pow2_def)
  have 2: "divide64 (divide64 raw 10) 1000 \<le> of_int 8246337208319998 * pow2 (- 37)"
    by (rule divide64_le [OF _ 1]) (simp_all add: normal64_def pow2_def)
  have 3: "divide64 (divide64 (divide64 raw 10) 1000) 1000
      \<le> of_int 8444249301319678 * pow2 (- 47)"
    by (rule divide64_le [OF _ 2]) (simp_all add: normal64_def pow2_def)
  have "divide64 (divide64 (divide64 (divide64 raw 10) 1000) 1000) 60
      \<le> of_int 9007199254740990 * pow2 (- 53)"
    by (rule divide64_le [OF _ 3]) (simp_all add: normal64_def pow2_def)
  then show ?thesis by (simp add: pow2_def)
qed

section \<open>The classifier\<close>

lemma or_else_nat_max: "or_else v (1::nat) = max (case v of None \<Rightarrow> 0 | Some n \<Rightarrow> n) 1"
  by (cases v) (auto simp: or_else_def)

lemma or_else_zero: "or_else v 0 = (case v of None \<Rightarrow> 0 | Some x \<Rightarrow> x)"
  by (cases v) (auto simp: or_else_def)

lemma classifyCell_eq_spec: "classifyCell r = classify_spec r"
  using or_else_nat_max [of "total_hits r"]
  by (simp add: classifyCell_def classify_spec_def or_else_zero Let_def)

text \<open>
  Claim C2. \<open>classifyCell\<close> is a function of the record alone and computes the five
  rules of the specification in their order, a missing field counting as 0 and the
  hit count as 1 in the denominator of the average. Any record whose \<open>percent_time\<close>
  is 35 is Performance-Critical; \<open>{total_time: 5000, total_hits: 1, memory_delta_mb: 0}\<close>
  is CPU-Intensive; \<open>{total_hits: 20000, total_time: 500}\<close> is Loop-Intensive; the
  record of zeros is Normal.
\<close>

theorem classifyCell_rules:
  "classifyCell r = classify_spec r
   \<and> (percent_time r = Some 35 \<longrightarrow> classifyCell r = ''Performance-Critical'')
   \<and> classifyCell \<lparr>percent_time = None, total_time = Some 5000, total_hits = Some 1,
         memory_delta_mb = Some 0\<rparr> = ''CPU-Intensive''
   \<and> classifyCell \<lparr>percent_time = None, total_time = Some 500, total_hits = Some 20000,
         memory_delta_mb = None\<rparr> = ''Loop-Intensive''
   \<and> classifyCell \<lparr>percent_time = Some 0, total_time = Some 0, total_hits = Some 0,
         memory_delta_mb = Some 0\<rparr> = ''Normal''"
proof (intro conjI impI)
  show "classifyCell r = classify_spec r" by (rule classifyCell_eq_spec)
next
  assume "percent_time r = Some 35"
  then show "classifyCell r = ''Performance-Critical''"
    by (simp add: classifyCell_def or_else_def)
qed (simp_all add: classifyCell_def or_else_def)

theorem classifyCell_rules_witness:
  "classifyCell \<lparr>percent_time = Some 35, total_time = Some 5000, total_hits = Some 1,
      memory_delta_mb = Some 1\<rparr> = ''Performance-Critical''"
  using classifyCell_rules
    [of "\<lparr>percent_time = Some 35, total_time = Some 5000, total_hits = Some 1,
          memory_delta_mb = Some 1\<rparr>", THEN conjunct2, THEN conjunct1]
  by simp

section \<open>The time formatter\<close>

lemma formatTime_falsy: "formatTime None = ''N/A''" "formatTime (Some 0) = ''N/A''"
  by (simp_all add: formatTime_def falsy_def)

lemma formatTime_thresholds:
  assumes "binary64 raw = raw" "raw \<noteq> 0"
  shows "formatTime (Some raw) =
     (if 600000000 \<le> raw
      then toFixed (divide64 (divide64 (divide64 (divide64 raw 10) 1000) 1000) 60) 2 @ '' min''
      else if 10000000 \<le> raw
      then toFixed (divide64 (divide64 (divide64 raw 10) 1000) 1000) 2 @ '' s''
      else if 10000 \<le> raw
      then toFixed (divide64 (divide64 raw 10) 1000) 2 @ '' ms''
      else toFixed (divide64 raw 10) 2 @ '' '' @ micro_sign @ ''s'')"
proof -
  have mn: "1 \<le> divide64 (divide64 (divide64 (divide64 raw 10) 1000) 1000) 60
      \<longleftrightarrow> 600000000 \<le> raw"
    using minutes_ge [of raw] minutes_lt [OF assms(1)] by fastforce
  have sc: "1 \<le> divide64 (divide64 (divide64 raw 10) 1000) 1000 \<longleftrightarrow> 10000000 \<le> raw"
    using seconds_ge [of raw] seconds_lt [OF assms(1)] by fastforce
  have ms: "1 \<le> divide64 (divide64 raw 10) 1000 \<longleftrightarrow> 10000 \<le> raw"
    using milliseconds_ge [of raw] milliseconds_lt [OF assms(1)] by fastforce
  show ?thesis
    using assms(2) by (simp add: formatTime_def falsy_def Let_def mn sc ms)
qed

lemma divide64_abs_le: "0 < d \<Longrightarrow> \<bar>divide64 x d\<bar> \<le> 2 * \<bar>x\<bar> / d"
  using binary64_abs_le [of "x / d"] by (simp add: divide64_def abs_divide)

lemma quotients_below:
  assumes "\<bar>raw\<bar> < 10 ^ 21"
  shows "\<bar>divide64 raw 10\<bar> < 10 ^ 21"
    "\<bar>divide64 (divide64 raw 10) 1000\<bar> < 10 ^ 21"
    "\<bar>divide64 (divide64 (divide64 raw 10) 1000) 1000\<bar> < 10 ^ 21"
    "\<bar>divide64 (divide64 (divide64 (divide64 raw 10) 1000) 1000) 60\<bar> < 10 ^ 21"
proof -
  have 1: "\<bar>divide64 raw 10\<bar> \<le> 2 * \<bar>raw\<bar> / 10"
    by (rule divide64_abs_le) simp
  have 2: "\<bar>divide64 (divide64 raw 10) 1000\<bar> \<le> 2 * \<bar>divide64 raw 10\<bar> / 1000"
    by (rule divide64_abs_le) simp
  have 3: "\<bar>divide64 (divide64 (divide64 raw 10) 1000) 1000\<bar>
      \<le> 2 * \<bar>divide64 (divide64 raw 10) 1000\<bar> / 1000"
    by (rule divide64_abs_le) simp
  have 4: "\<bar>divide64 (divide64 (divide64 (divide64 raw 10) 1000) 1000) 60\<bar>
      \<le> 2 * \<bar>divide64 (divide64 (divide64 raw 10) 1000) 1000\<bar> / 60"
    by (rule divide64_abs_le) simp
  from assms have b: "\<bar>raw\<bar> < 1000000000000000000000" by simp
  from 1 b show a1: "\<bar>divide64 raw 10\<bar> < 10 ^ 21" by simp
  from 2 1 b show a2: "\<bar>divide64 (divide64 raw 10) 1000\<bar> < 10 ^ 21" by simp
  from 3 2 1 b show a3: "\<bar>divide64 (divide64 (divide64 raw 10) 1000) 1000\<bar> < 10 ^ 21" by simp
  from 4 3 2 1 b
  show "\<bar>divide64 (divide64 (divide64 (divide64 raw 10) 1000) 1000) 60\<bar> < 10 ^ 21" by simp
qed

text \<open>
  Claim C6, as amended. \<open>formatTime\<close> returns \<open>N/A\<close> for a missing, null or zero
  duration. Any other duration it divides by 10 and reads as microseconds, and from
  these it derives milliseconds, seconds and minutes by dividing on by 1000, 1000 and
  60, each quotient rounded to binary64; it renders with \<open>toFixed(2)\<close> the quotient of
  the first scale that fits: minutes from 60,000,000 microseconds (a raw value of
  600,000,000), seconds from 1,000,000 (10,000,000), milliseconds from 1,000 (10,000),
  microseconds otherwise. \<open>toFixed(2)\<close> writes the hundredth nearest to the quotient,
  with two decimal places, when the quotient is below \<open>10^21\<close> in magnitude, as each
  quotient is for a raw value below \<open>10^21\<close> in magnitude. \<open>formatTime(0)\<close> is \<open>N/A\<close>,
  \<open>formatTime(10000)\<close> is \<open>1.00 ms\<close> and \<open>formatTime(600000000)\<close> is \<open>1.00 min\<close>.
\<close>

theorem formatTime_scales:
  "formatTime None = ''N/A''
   \<and> formatTime (Some 0) = ''N/A''
   \<and> (binary64 raw = raw \<and> raw \<noteq> 0 \<longrightarrow>
        formatTime (Some raw) =
          (if 600000000 \<le> raw
           then toFixed (divide64 (divide64 (divide64 (divide64 raw 10) 1000) 1000) 60) 2
                @ '' min''
           else if 10000000 \<le> raw
           then toFixed (divide64 (divide64 (divide64 raw 10) 1000) 1000) 2 @ '' s''
           else if 10000 \<le> raw
           then toFixed (divide64 (divide64 raw 10) 1000) 2 @ '' ms''
           else toFixed (divide64 raw 10) 2 @ '' '' @ micro_sign @ ''s''))
   \<and> (\<bar>raw\<bar> < 10 ^ 21 \<longrightarrow>
        \<bar>divide64 raw 10\<bar> < 10 ^ 21
        \<and> \<bar>divide64 (divide64 raw 10) 1000\<bar> < 10 ^ 21
        \<and> \<bar>divide64 (divide64 (divide64 raw 10) 1000) 1000\<bar> < 10 ^ 21
        \<and> \<bar>divide64 (divide64 (divide64 (divide64 raw 10) 1000) 1000) 60\<bar> < 10 ^ 21)
   \<and> (\<bar>v\<bar> < 10 ^ 21 \<longrightarrow> toFixed v 2 = two_decimals v)
   \<and> formatTime (Some 10000) = ''1.00 ms''
   \<and> formatTime (Some 600000000) = ''1.00 min''"
proof (intro conjI impI)
  assume "binary64 raw = raw \<and> raw \<noteq> 0"
  then show "formatTime (Some raw) =
          (if 600000000 \<le> raw
           then toFixed (divide64 (divide64 (divide64 (divide64 raw 10) 1000) 1000) 60) 2
                @ '' min''
           else if 10000000 \<le> raw
           then toFixed (divide64 (divide64 (divide64 raw 10) 1000) 1000) 2 @ '' s''
           else if 10000 \<le> raw
           then toFixed (divide64 (divide64 raw 10) 1000) 2 @ '' ms''
           else toFixed (divide64 raw 10) 2 @ '' '' @ micro_sign @ ''s'')"
    by (intro formatTime_thresholds) simp_all
next
  assume a: "\<bar>raw\<bar> < 10 ^ 21"
  show "\<bar>divide64 raw 10\<bar> < 10 ^ 21" by (rule quotients_below(1) [OF a])
  show "\<bar>divide64 (divide64 raw 10) 1000\<bar> < 10 ^ 21" by (rule quotients_below(2) [OF a])
  show "\<bar>divide64 (divide64 (divide64 raw 10) 1000) 1000\<bar> < 10 ^ 21"
    by (rule quotients_below(3) [OF a])
  show "\<bar>divide64 (divide64 (divide64 (divide64 raw 10) 1000) 1000) 60\<bar> < 10 ^ 21"
    by (rule quotients_below(4) [OF a])
next
  assume "\<bar>v\<bar> < 10 ^ 21"
  then show "toFixed v 2 = two_decimals v" by (rule toFixed_two_decimals)
next
  show "formatTime (Some 10000) = ''1.00 ms''" by (simp add: render)
next
  show "formatTime (Some 600000000) = ''1.00 min''" by (simp add: render)
qed (simp_all add: formatTime_falsy)

text \<open>At 10050 the millisecond quotient is the binary64 value just below 1.005.\<close>

theorem formatTime_scales_witness:
  "binary64 10050 = 10050
   \<and> divide64 (divide64 10050 10) 1000 = 1131529406376837 / 1125899906842624
   \<and> formatTime (Some 10050) = ''1.00 ms''"
proof -
  have b: "binary64 10050 = 10050" by (simp add: binary64_eval)
  have q: "divide64 (divide64 10050 10) 1000 = 1131529406376837 / 1125899906842624"
    by (simp add: binary64_eval)
  from formatTime_scales [of 10050, THEN conjunct2, THEN conjunct2, THEN conjunct1] b
  have "formatTime (Some 10050) = toFixed (divide64 (divide64 10050 10) 1000) 2 @ '' ms''"
    by simp
  then have "formatTime (Some 10050) = ''1.00 ms''"
    unfolding q by (simp add: render)
  with b q show ?thesis by simp
qed

text \<open>
  The claim as it stands fails where the quotient reaches \<open>10^21\<close>: there \<open>toFixed\<close> hands
  over to \<open>Number::toString\<close> (ECMA-262, Number.prototype.toFixed: if \<open>x \<ge> 10^21\<close>, let
  \<open>m\<close> be \<open>ToString(x)\<close>). The binary64 value 599999999999999983783277232128 gives
  exactly \<open>10^21\<close> minutes and is printed \<open>1e+21 min\<close>, with no decimal places, where
  the specification's wording gives 999999999999999972972.13 minutes.
\<close>

theorem formatTime_scales_counterexample:
  "binary64 599999999999999983783277232128 = 599999999999999983783277232128
   \<and> formatTime (Some 599999999999999983783277232128) = ''1e+21 min''
   \<and> format_spec (Some 599999999999999983783277232128) = ''999999999999999972972.13 min''"
  by (simp add: format_spec_def two_decimals_def render)

section \<open>The decorations of a cell\<close>

lemma split_newline_nonempty: "split_newline s \<noteq> []"
  by (induction s) (auto split: list.splits)

lemma last_line: "srcLines \<noteq> [] \<Longrightarrow> srcLines ! (length srcLines - 1) = last srcLines"
  by (simp add: last_conv_nth)

text \<open>The rules that evaluate \<open>parseInt\<close> and the bounds test at a given key.\<close>

lemmas parse =
  parseInt_def StrWhiteSpaceChar_def is_radix_digit_def digit_value_def radix_value_def
  line_index_def in_bounds_def Let_def

lemma line_decorations_filter:
  "line_decorations srcLines entries =
     map (\<lambda>(k, ld). line_decoration srcLines (nat (the (line_index k))) ld)
       (filter (\<lambda>(k, ld). in_bounds srcLines k) entries)"
  by (induction entries) auto

lemma in_bounds_iff:
  "in_bounds srcLines k \<longleftrightarrow> (\<exists>i. parseInt k = Some (int i + 1) \<and> i < length srcLines)"
proof
  assume "in_bounds srcLines k"
  then obtain n where n: "parseInt k = Some n" "n - 1 \<ge> 0" "n - 1 < int (length srcLines)"
    by (auto simp: in_bounds_def line_index_def split: option.splits)
  then have "parseInt k = Some (int (nat (n - 1)) + 1)" "nat (n - 1) < length srcLines"
    by auto
  then show "\<exists>i. parseInt k = Some (int i + 1) \<and> i < length srcLines" by blast
next
  assume "\<exists>i. parseInt k = Some (int i + 1) \<and> i < length srcLines"
  then show "in_bounds srcLines k" by (auto simp: in_bounds_def line_index_def)
qed

lemma line_index_of_pos: "parseInt k = Some (int i + 1) \<Longrightarrow> nat (the (line_index k)) = i"
  by (simp add: line_index_def)

lemma length_filter_eq_iff: "length (filter P xs) = length xs \<longleftrightarrow> list_all P xs"
proof (induction xs)
  case Nil
  show ?case by simp
next
  case (Cons x xs)
  have "length (filter P xs) \<noteq> Suc (length xs)"
    using length_filter_le [of P xs] by linarith
  with Cons show ?case by auto
qed

lemma formatTime_or_else: "formatTime (Some (or_else t 0)) = formatTime t"
  by (cases t) (auto simp: formatTime_def falsy_def or_else_def)

lemma line_decoration_sel:
  "range_start (line_decoration srcLines i ld) = \<lparr>line = i, character = length (srcLines ! i)\<rparr>"
  "range_end (line_decoration srcLines i ld) = \<lparr>line = i, character = length (srcLines ! i)\<rparr>"
  "contentText (line_decoration srcLines i ld) =
     stopwatch @ '' '' @ formatTime (time ld) @ ''  | '' @ high_voltage @ '' ''
     @ (case percent ld of None \<Rightarrow> ''N/A'' | Some p \<Rightarrow> if p = 0 then ''N/A'' else toFixed p 2)
     @ ''%''"
  "color (line_decoration srcLines i ld) = colorForCategory (classifyCell ld)"
  by (simp_all add: line_decoration_def Let_def falsy_def split: option.splits)

lemma summary_decoration_sel:
  "range_start (summary_decoration srcLines cd) =
     \<lparr>line = length srcLines - 1, character = length (srcLines ! (length srcLines - 1))\<rparr>"
  "range_end (summary_decoration srcLines cd) =
     \<lparr>line = length srcLines - 1, character = length (srcLines ! (length srcLines - 1))\<rparr>"
  "contentText (summary_decoration srcLines cd) =
     '' | Total time: '' @ stopwatch @ '' '' @ formatTime (total_time cd)
     @ '' | Total hits: '' @ numberToString (or_else (total_hits cd) 0)
     @ '' | Classification: '' @ classifyCell cd"
  "color (summary_decoration srcLines cd) = colorForCategory (classifyCell cd)"
  by (simp_all add: summary_decoration_def Let_def formatTime_or_else)

lemma three_lines:
  assumes "length (split_newline src) = 3"
  shows "map (\<lambda>d. line (range_start d))
           (line_decorations (split_newline src) [([0x31], a), ([0x33], b)]
            @ [summary_decoration (split_newline src) cd]) = [0, 2, 2]"
  using assms by (simp add: parse line_decoration_sel summary_decoration_sel)

lemma in_line_decorations:
  assumes "d \<in> set (line_decorations srcLines entries)"
  shows "\<exists>k ld i. (k, ld) \<in> set entries \<and> parseInt k = Some (int i + 1)
           \<and> i < length srcLines \<and> d = line_decoration srcLines i ld"
proof -
  from assms obtain k ld where kl: "(k, ld) \<in> set entries" "in_bounds srcLines k"
    "d = line_decoration srcLines (nat (the (line_index k))) ld"
    by (auto simp: line_decorations_filter)
  from kl(2) obtain i where i: "parseInt k = Some (int i + 1)" "i < length srcLines"
    by (auto simp: in_bounds_iff)
  from i(1) have "nat (the (line_index k)) = i" by (rule line_index_of_pos)
  with kl i show ?thesis by blast
qed

text \<open>
  Claim C3. For a cell that is processed (its entry has \<open>lines\<close>), the decorations are
  one line record for each entry of \<open>lines\<close> whose key, read as a 1-based line number,
  falls within the newline-split source, in the order of the entries, and then the
  summary; an entry out of bounds is passed over and nothing fails. A key \<open>n\<close> between 1
  and the line count gives the record anchored at line \<open>n - 1\<close>. So there are at most as
  many line records as entries, and as many exactly when every entry is in bounds. A
  cell of three lines with entries for lines 1 and 3 gets two line records and the
  summary, anchored at lines 0, 2 and 2.
\<close>

theorem line_records_in_bounds:
  assumes "lines cellData = Some entries"
  shows "cell_decorations src cellData =
           Inr (map (\<lambda>(k, ld). line_decoration (split_newline src) (nat (the (line_index k))) ld)
                  (filter (\<lambda>(k, ld). in_bounds (split_newline src) k) entries)
                @ [summary_decoration (split_newline src) cellData])
         \<and> (\<forall>k. in_bounds (split_newline src) k
                \<longleftrightarrow> (\<exists>i. parseInt k = Some (int i + 1) \<and> i < length (split_newline src)))
         \<and> (\<forall>k ld i. parseInt k = Some (int i + 1) \<longrightarrow>
               line (range_start
                 (line_decoration (split_newline src) (nat (the (line_index k))) ld)) = i)
         \<and> length (line_decorations (split_newline src) entries) \<le> length entries
         \<and> (length (line_decorations (split_newline src) entries) = length entries
              \<longleftrightarrow> list_all (\<lambda>(k, ld). in_bounds (split_newline src) k) entries)
         \<and> (length (split_newline src) = 3 \<and> entries = [([0x31], a), ([0x33], b)] \<longrightarrow>
              (\<exists>ds. cell_decorations src cellData = Inr ds
                 \<and> map (\<lambda>d. line (range_start d)) ds = [0, 2, 2]))"
proof (intro conjI allI impI)
  show "cell_decorations src cellData =
           Inr (map (\<lambda>(k, ld). line_decoration (split_newline src) (nat (the (line_index k))) ld)
                  (filter (\<lambda>(k, ld). in_bounds (split_newline src) k) entries)
                @ [summary_decoration (split_newline src) cellData])"
    using assms by (simp add: cell_decorations_def line_decorations_filter Let_def)
next
  fix k
  show "in_bounds (split_newline src) k
          \<longleftrightarrow> (\<exists>i. parseInt k = Some (int i + 1) \<and> i < length (split_newline src))"
    by (rule in_bounds_iff)
next
  fix k ld i
  assume "parseInt k = Some (int i + 1)"
  then have "nat (the (line_index k)) = i" by (rule line_index_of_pos)
  then show "line (range_start
      (line_decoration (split_newline src) (nat (the (line_index k))) ld)) = i"
    by (simp add: line_decoration_sel)
next
  show "length (line_decorations (split_newline src) entries) \<le> length entries"
    by (simp add: line_decorations_filter)
next
  show "length (line_decorations (split_newline src) entries) = length entries
          \<longleftrightarrow> list_all (\<lambda>(k, ld). in_bounds (split_newline src) k) entries"
    by (simp add: line_decorations_filter length_filter_eq_iff)
next
  assume h: "length (split_newline src) = 3 \<and> entries = [([0x31], a), ([0x33], b)]"
  let ?ds = "line_decorations (split_newline src) [([0x31], a), ([0x33], b)]
           @ [summary_decoration (split_newline src) cellData]"
  have e1: "cell_decorations src cellData = Inr ?ds"
    using assms h by (simp add: cell_decorations_def Let_def)
  have "length (split_newline src) = 3" using h by (rule conjunct1)
  then have e2: "map (\<lambda>d. line (range_start d)) ?ds = [0, 2, 2]"
    by (rule three_lines)
  show "\<exists>ds. cell_decorations src cellData = Inr ds
                 \<and> map (\<lambda>d. line (range_start d)) ds = [0, 2, 2]"
    using e1 e2 by (intro exI [of _ ?ds] conjI)
qed

theorem line_records_in_bounds_witness:
  "map (\<lambda>d. line (range_start d))
     (projr (cell_decorations [0x61, 0x0A, 0x62, 0x0A, 0x63] example_cell)) = [0, 2, 2]"
proof -
  have l: "lines example_cell
      = Some [([0x31], example_line), ([0x33], example_line), ([0x37], example_line)]"
    by (simp add: example_cell_def)
  have "cell_decorations [0x61, 0x0A, 0x62, 0x0A, 0x63] example_cell =
      Inr (map (\<lambda>(k, ld). line_decoration (split_newline [0x61, 0x0A, 0x62, 0x0A, 0x63])
                 (nat (the (line_index k))) ld)
             (filter (\<lambda>(k, ld). in_bounds (split_newline [0x61, 0x0A, 0x62, 0x0A, 0x63]) k)
                [([0x31], example_line), ([0x33], example_line), ([0x37], example_line)])
           @ [summary_decoration (split_newline [0x61, 0x0A, 0x62, 0x0A, 0x63]) example_cell])"
    using line_records_in_bounds [OF l] by (rule conjunct1)
  then show ?thesis
    by (simp add: parse line_decoration_sel summary_decoration_sel)
qed

text \<open>
  Claim C4. For a cell that is processed, the decorations end with exactly one summary
  record, after all the line records: anchored at the last line (index line count
  minus 1, the source having at least one line) and at the column that is the length
  of that line, with the text
  \<open> | Total time: <stopwatch> {formatTime(total_time)} | Total hits: {total_hits} | Classification: {category}\<close>,
  the category being \<open>classifyCell\<close> of the cell's entry and the colour the one of that
  category.
\<close>

theorem summary_record_last:
  assumes "lines cellData = Some entries"
  shows "cell_decorations src cellData =
           Inr (line_decorations (split_newline src) entries
                @ [summary_decoration (split_newline src) cellData])
         \<and> 1 \<le> length (split_newline src)
         \<and> range_start (summary_decoration (split_newline src) cellData) =
             \<lparr>line = length (split_newline src) - 1,
              character = length (last (split_newline src))\<rparr>
         \<and> range_end (summary_decoration (split_newline src) cellData) =
             range_start (summary_decoration (split_newline src) cellData)
         \<and> contentText (summary_decoration (split_newline src) cellData) =
             '' | Total time: '' @ stopwatch @ '' '' @ formatTime (total_time cellData)
             @ '' | Total hits: '' @ numberToString (or_else (total_hits cellData) 0)
             @ '' | Classification: '' @ classifyCell cellData
         \<and> color (summary_decoration (split_newline src) cellData) =
             colorForCategory (classifyCell cellData)"
proof -
  have ne: "split_newline src \<noteq> []" by (rule split_newline_nonempty)
  then have "1 \<le> length (split_newline src)" by (simp add: Suc_le_eq)
  moreover have "cell_decorations src cellData =
           Inr (line_decorations (split_newline src) entries
                @ [summary_decoration (split_newline src) cellData])"
    using assms by (simp add: cell_decorations_def Let_def)
  ultimately show ?thesis
    using last_line [OF ne] by (simp add: summary_decoration_sel)
qed

theorem summary_record_last_witness:
  "last (projr (cell_decorations [0x61, 0x0A, 0x62, 0x0A, 0x63] example_cell)) =
     \<lparr>range_start = \<lparr>line = 2, character = 1\<rparr>, range_end = \<lparr>line = 2, character = 1\<rparr>,
      contentText = '' | Total time: '' @ stopwatch
        @ '' 1.00 min | Total hits: 3 | Classification: Performance-Critical'',
      color = ''red''\<rparr>"
proof -
  have l: "lines example_cell
      = Some [([0x31], example_line), ([0x33], example_line), ([0x37], example_line)]"
    by (simp add: example_cell_def)
  note t = summary_record_last [OF l, of "[0x61, 0x0A, 0x62, 0x0A, 0x63]"]
  have s: "summary_decoration (split_newline [0x61, 0x0A, 0x62, 0x0A, 0x63]) example_cell =
     \<lparr>range_start = \<lparr>line = 2, character = 1\<rparr>, range_end = \<lparr>line = 2, character = 1\<rparr>,
      contentText = '' | Total time: '' @ stopwatch
        @ '' 1.00 min | Total hits: 3 | Classification: Performance-Critical'',
      color = ''red''\<rparr>"
    by (simp add: summary_decoration_def example_cell_def classifyCell_def
        colorForCategory_def render)
  from t have "cell_decorations [0x61, 0x0A, 0x62, 0x0A, 0x63] example_cell =
           Inr (line_decorations (split_newline [0x61, 0x0A, 0x62, 0x0A, 0x63])
                  [([0x31], example_line), ([0x33], example_line), ([0x37], example_line)]
                @ [summary_decoration (split_newline [0x61, 0x0A, 0x62, 0x0A, 0x63])
                     example_cell])"
    by (rule conjunct1)
  then show ?thesis by (simp only: sum.sel last_snoc s)
qed

text \<open>
  Claim C7, as amended. Every line record that is emitted comes from an entry of
  \<open>lines\<close> in bounds and is anchored at its line index and the length of that source
  line. Its text is the stopwatch, \<open>formatTime(line.time)\<close>, two spaces, a bar, the
  high-voltage sign and the percentage followed by \<open>%\<close>, where the percentage is \<open>N/A\<close>
  when \<open>line.percent\<close> is absent or zero and \<open>toFixed(2)\<close> of it otherwise, which is
  its value with two decimals below \<open>10^21\<close>. Its colour is the one of the category that
  \<open>classifyCell\<close> gives the entry: red for Performance-Critical, orange for
  CPU-Intensive, green for Loop-Intensive, purple for Memory-Intensive, and gray for
  Normal and any other string.
\<close>

theorem line_record_shape:
  "(d \<in> set (line_decorations srcLines entries) \<longrightarrow>
      (\<exists>k ld i. (k, ld) \<in> set entries \<and> parseInt k = Some (int i + 1)
         \<and> i < length srcLines \<and> d = line_decoration srcLines i ld))
   \<and> range_start (line_decoration srcLines i ld) =
        \<lparr>line = i, character = length (srcLines ! i)\<rparr>
   \<and> range_end (line_decoration srcLines i ld) = range_start (line_decoration srcLines i ld)
   \<and> contentText (line_decoration srcLines i ld) =
        stopwatch @ '' '' @ formatTime (time ld) @ ''  | '' @ high_voltage @ '' ''
        @ (case percent ld of
             None \<Rightarrow> ''N/A''
           | Some p \<Rightarrow> if p = 0 then ''N/A'' else toFixed p 2)
        @ ''%''
   \<and> (\<bar>p\<bar> < 10 ^ 21 \<longrightarrow> toFixed p 2 = two_decimals p)
   \<and> color (line_decoration srcLines i ld) = colorForCategory (classifyCell ld)
   \<and> colorForCategory ''Performance-Critical'' = ''red''
   \<and> colorForCategory ''CPU-Intensive'' = ''orange''
   \<and> colorForCategory ''Loop-Intensive'' = ''green''
   \<and> colorForCategory ''Memory-Intensive'' = ''purple''
   \<and> (c \<noteq> ''Performance-Critical'' \<and> c \<noteq> ''CPU-Intensive'' \<and> c \<noteq> ''Loop-Intensive''
        \<and> c \<noteq> ''Memory-Intensive'' \<longrightarrow> colorForCategory c = ''gray'')"
proof (intro conjI impI)
  assume "d \<in> set (line_decorations srcLines entries)"
  then show "\<exists>k ld i. (k, ld) \<in> set entries \<and> parseInt k = Some (int i + 1)
         \<and> i < length srcLines \<and> d = line_decoration srcLines i ld"
    by (rule in_line_decorations)
next
  assume "\<bar>p\<bar> < 10 ^ 21"
  then show "toFixed p 2 = two_decimals p" by (rule toFixed_two_decimals)
next
  assume "c \<noteq> ''Performance-Critical'' \<and> c \<noteq> ''CPU-Intensive'' \<and> c \<noteq> ''Loop-Intensive''
        \<and> c \<noteq> ''Memory-Intensive''"
  then show "colorForCategory c = ''gray''" by (simp add: colorForCategory_def)
qed (simp_all add: line_decoration_sel colorForCategory_def)

theorem line_record_shape_witness:
  "contentText (line_decoration [[0x61], [0x62, 0x63]] 1 example_line) =
     stopwatch @ '' 1.00 ms  | '' @ high_voltage @ '' 12.50%''
   \<and> range_start (line_decoration [[0x61], [0x62, 0x63]] 1 example_line) =
       \<lparr>line = 1, character = 2\<rparr>
   \<and> color (line_decoration [[0x61], [0x62, 0x63]] 1 example_line) = ''gray''
   \<and> colorForCategory ''Normal'' = ''gray''"
  using line_record_shape [of "line_decoration [[0x61], [0x62, 0x63]] 1 example_line"
      "[[0x61], [0x62, 0x63]]" "[([0x32], example_line)]" 1 example_line "25 / 2" "''Normal''"]
  by (simp add: example_line_def classifyCell_def colorForCategory_def render two_decimals_def)

text \<open>
  The claim as it stands fails on a line whose percentage is 0: the record reads
  \<open>N/A%\<close>, not \<open>0.00%\<close>, and two spaces precede the bar.
\<close>

theorem line_record_shape_counterexample:
  "contentText (line_decoration [[0x61]] 0 idle_line) =
     stopwatch @ '' 1.00 ms  | '' @ high_voltage @ '' N/A%''
   \<and> line_text_spec idle_line = stopwatch @ '' 1.00 ms | '' @ high_voltage @ '' 0.00%''
   \<and> contentText (line_decoration [[0x61]] 0 idle_line) \<noteq> line_text_spec idle_line"
  by (simp add: line_decoration_def line_text_spec_def idle_line_def two_decimals_def render
      stopwatch_def high_voltage_def)

section \<open>The map and the run\<close>

lemma Map_get_set: "Map_get (Map_set m k v) k' = (if k' = k then Some v else Map_get m k')"
  by (induction m) (auto simp: Map_get_def)

lemma keys_Map_set:
  "map fst (Map_set m k v) = (if k \<in> fst ` set m then map fst m else map fst m @ [k])"
  by (induction m) force+

lemma distinct_Map_set: "distinct (map fst m) \<Longrightarrow> distinct (map fst (Map_set m k v))"
  by (simp add: keys_Map_set)

lemma keys_of_Map_get: "k \<in> fst ` set m \<longleftrightarrow> Map_get m k \<noteq> None"
  by (simp add: Map_get_def map_of_eq_None_iff)

lemma cells_loop_distinct:
  "distinct (map fst m) \<Longrightarrow> distinct (map fst (fst (cells_loop pc cs i m)))"
proof (induction cs arbitrary: i m)
  case Nil
  then show ?case by simp
next
  case (Cons cell rest)
  then show ?case
    by (auto simp: distinct_Map_set
        split: option.splits NotebookCellKind.splits sum.splits)
qed

lemma cells_loop_success:
  "cells_loop pc cs i m = (m', None) \<Longrightarrow>
     Map_get m' d = (case map_of (rev (touched pc cs i)) d of
                       None \<Rightarrow> Map_get m d | Some v \<Rightarrow> Some v)"
proof (induction cs arbitrary: i m)
  case Nil
  then show ?case by simp
next
  case (Cons cell rest)
  then show ?case
    by (auto simp: Map_get_set map_of_append
        split: option.splits NotebookCellKind.splits sum.splits if_splits)
qed

lemma annotate_distinct: "distinct (map fst (cellDecorationsMap (fst (annotate parsed cs s))))"
proof (cases parsed)
  case (Inl e)
  then show ?thesis by (simp add: annotate_def Map_clear_def)
next
  case (Inr data)
  have "distinct (map fst (fst (cells_loop (cells data) cs 0 Map_clear)))"
    by (rule cells_loop_distinct) (simp add: Map_clear_def)
  with Inr show ?thesis
    by (auto simp: annotate_def split: prod.splits option.splits)
qed

lemma profileNotebook_distinct:
  "distinct (map fst (cellDecorationsMap s)) \<Longrightarrow>
   distinct (map fst (cellDecorationsMap (fst (profileNotebook outcome cs s))))"
  by (cases outcome) (simp_all add: profileNotebook_def annotate_distinct)

lemma hover_state_run:
  "profileNotebook (OutputRead (Inr \<lparr>cells = CellsArray [Some example_cell]\<rparr>))
       [\<lparr>kind = Code, document = Some example_document\<rparr>] example_state
     = (hover_state, AnnotationsAdded)"
proof -
  have "snd (profileNotebook (OutputRead (Inr \<lparr>cells = CellsArray [Some example_cell]\<rparr>))
       [\<lparr>kind = Code, document = Some example_document\<rparr>] example_state) = AnnotationsAdded"
    by (simp add: profileNotebook_def annotate_def cell_entry_def cell_decorations_def
        example_cell_def example_document_def Map_clear_def parse)
  then show ?thesis by (simp add: hover_state_def prod_eq_iff)
qed

lemma hover_state_map:
  "cellDecorationsMap hover_state =
     [(7, [line_decoration [[0x61], [0x62], [0x63]] 0 example_line,
           line_decoration [[0x61], [0x62], [0x63]] 2 example_line]
          @ [summary_decoration [[0x61], [0x62], [0x63]] example_cell])]"
  by (simp add: hover_state_def profileNotebook_def annotate_def cell_entry_def
      cell_decorations_def example_cell_def example_document_def Map_clear_def parse)

text \<open>
  Claim C1, as amended. When the report's text does not parse, and when the decoded
  report has no \<open>cells\<close> (the property is missing or null) and the notebook has at
  least one cell, the run ends with the error shown (\<open>Failed to parse profiler output\<close>)
  and the map is left empty: it is cleared before the report is read and nothing
  restores it, so a lookup of any document finds nothing.
\<close>

theorem malformed_report_clears_store:
  "profileNotebook (OutputRead (Inl err)) allCells s =
     (s\<lparr>cellDecorationsMap := Map_clear\<rparr>, FailedToParse err)
   \<and> (cells data = NoCells \<and> allCells \<noteq> [] \<longrightarrow>
        profileNotebook (OutputRead (Inr data)) allCells s =
          (s\<lparr>cellDecorationsMap := Map_clear\<rparr>, FailedToParse TypeError))
   \<and> Map_get Map_clear d = None"
proof (intro conjI impI)
  assume "cells data = NoCells \<and> allCells \<noteq> []"
  then show "profileNotebook (OutputRead (Inr data)) allCells s =
          (s\<lparr>cellDecorationsMap := Map_clear\<rparr>, FailedToParse TypeError)"
    by (cases allCells) (simp_all add: profileNotebook_def annotate_def cell_entry_def)
qed (simp_all add: profileNotebook_def annotate_def Map_get_def Map_clear_def)

theorem malformed_report_clears_store_witness:
  "profileNotebook (OutputRead (Inr \<lparr>cells = NoCells\<rparr>))
      [\<lparr>kind = Markup, document = Some example_document\<rparr>] example_state =
     (\<lparr>cellDecorationsMap = [], hoverProviderRegistered = True\<rparr>, FailedToParse TypeError)"
  using malformed_report_clears_store
    [of SyntaxError "[\<lparr>kind = Markup, document = Some example_document\<rparr>]" example_state
      "\<lparr>cells = NoCells\<rparr>" 7, THEN conjunct2, THEN conjunct1]
  by (simp add: example_state_def Map_clear_def)

text \<open>
  The claim as it stands fails. After a report that does not parse, the map that held an
  entry is empty. A report whose \<open>cells\<close> is not a sequence, \<open>{"cells": 5}\<close> or
  \<open>{"cells": {}}\<close>, passes as a success: indexing it gives \<open>undefined\<close> and every cell is
  skipped. So does a report without \<open>cells\<close> when the notebook has no cell.
\<close>

theorem malformed_report_clears_store_counterexample:
  "cellDecorationsMap (fst (profileNotebook (OutputRead (Inl SyntaxError))
      [\<lparr>kind = Code, document = Some example_document\<rparr>] example_state)) = []
   \<and> cellDecorationsMap example_state \<noteq> []
   \<and> profileNotebook (OutputRead (Inr \<lparr>cells = CellsScalar\<rparr>))
         [\<lparr>kind = Code, document = Some example_document\<rparr>] example_state
       = (\<lparr>cellDecorationsMap = [], hoverProviderRegistered = True\<rparr>, AnnotationsAdded)
   \<and> profileNotebook (OutputRead (Inr \<lparr>cells = CellsObject []\<rparr>))
         [\<lparr>kind = Code, document = Some example_document\<rparr>] example_state
       = (\<lparr>cellDecorationsMap = [], hoverProviderRegistered = True\<rparr>, AnnotationsAdded)
   \<and> snd (profileNotebook (OutputRead (Inr \<lparr>cells = NoCells\<rparr>)) [] example_state)
       = AnnotationsAdded"
  by (simp add: profileNotebook_def annotate_def cell_entry_def example_state_def
      Map_clear_def)

text \<open>
  Claim C5, as amended. A notebook cell whose entry in the report is absent (its index
  is at or beyond the length of \<open>cells\<close>, or the entry is null) produces no records and
  no error: the loop goes on to the next cell with the map as it was. A run in which
  every cell is passed over in this way ends as a success.
\<close>

theorem absent_entry_skipped:
  "(length entries \<le> cellIndex \<or> entries ! cellIndex = None \<longrightarrow>
      cells_loop (CellsArray entries) ((cell :: 'd notebook_cell) # rest) cellIndex m =
        cells_loop (CellsArray entries) rest (cellIndex + 1) m)
   \<and> ((\<forall>j < length (allCells :: 'd notebook_cell list).
          length entries \<le> j \<or> entries ! j = None) \<longrightarrow>
        profileNotebook (OutputRead (Inr \<lparr>cells = CellsArray entries\<rparr>)) allCells s =
          (\<lparr>cellDecorationsMap = Map_clear, hoverProviderRegistered = True\<rparr>,
           AnnotationsAdded))"
proof (intro conjI impI)
  assume "length entries \<le> cellIndex \<or> entries ! cellIndex = None"
  then show "cells_loop (CellsArray entries) (cell # rest) cellIndex m =
        cells_loop (CellsArray entries) rest (cellIndex + 1) m"
    by (auto simp: cell_entry_def split: NotebookCellKind.splits option.splits)
next
  assume a: "\<forall>j < length allCells. length entries \<le> j \<or> entries ! j = None"
  have "(\<forall>j < length cs. length entries \<le> i + j \<or> entries ! (i + j) = None) \<Longrightarrow>
      cells_loop (CellsArray entries) cs i m = (m, None)" for cs :: "'d notebook_cell list" and i m
  proof (induction cs arbitrary: i)
    case Nil
    show ?case by simp
  next
    case (Cons c cs)
    from Cons.prems have h: "length entries \<le> i \<or> entries ! i = None" by force
    have "\<forall>j < length cs. length entries \<le> Suc i + j \<or> entries ! (Suc i + j) = None"
      using Cons.prems by force
    then have "cells_loop (CellsArray entries) cs (Suc i) m = (m, None)" by (rule Cons.IH)
    with h show ?case
      by (auto simp: cell_entry_def split: NotebookCellKind.splits option.splits)
  qed
  from this [of allCells 0 Map_clear] a
  have "cells_loop (CellsArray entries) allCells 0 Map_clear = (Map_clear, None)" by simp
  then show "profileNotebook (OutputRead (Inr \<lparr>cells = CellsArray entries\<rparr>)) allCells s =
          (\<lparr>cellDecorationsMap = Map_clear, hoverProviderRegistered = True\<rparr>,
           AnnotationsAdded)"
    by (simp add: profileNotebook_def annotate_def)
qed

theorem absent_entry_skipped_witness:
  "profileNotebook (OutputRead (Inr \<lparr>cells = CellsArray [None]\<rparr>))
      [\<lparr>kind = Code, document = Some example_document\<rparr>,
       \<lparr>kind = Code, document = Some example_document\<rparr>] example_state =
     (\<lparr>cellDecorationsMap = [], hoverProviderRegistered = True\<rparr>, AnnotationsAdded)"
  using absent_entry_skipped
    [of "[None]" 0 "\<lparr>kind = Code, document = Some example_document\<rparr>" "[]" "[]"
      "[\<lparr>kind = Code, document = Some example_document\<rparr>,
        \<lparr>kind = Code, document = Some example_document\<rparr>]" example_state,
      THEN conjunct2]
  by (simp add: Map_clear_def All_less_Suc less_Suc_eq)

text \<open>
  The claim as it stands fails on an entry without \<open>lines\<close>: \<open>Object.entries\<close> throws,
  the run stops there and shows the error.
\<close>

theorem absent_entry_skipped_counterexample:
  "profileNotebook (OutputRead (Inr \<lparr>cells = CellsArray [Some no_lines_cell]\<rparr>))
      [\<lparr>kind = Code, document = Some example_document\<rparr>] example_state =
     (\<lparr>cellDecorationsMap = [], hoverProviderRegistered = True\<rparr>, FailedToParse TypeError)"
  by (simp add: profileNotebook_def annotate_def cell_entry_def cell_decorations_def
      no_lines_cell_def example_state_def Map_clear_def)

text \<open>
  Claim C8. After a run that succeeds, a lookup in the map gives, for each document the
  run touched, the decorations the run built for it (the last built, should two cells
  share a document), and nothing for any other document, whatever the map held
  before; the keys of the map are the touched documents. The map never holds two
  entries for one document: not when cleared, not after a \<open>set\<close>, not after a run,
  however it ends.
\<close>

theorem successful_run_replaces_store:
  assumes "profileNotebook (OutputRead (Inr data)) allCells s = (s', AnnotationsAdded)"
  shows "Map_get (cellDecorationsMap s') d =
           map_of (rev (touched (cells data) allCells 0)) d
         \<and> (d \<notin> fst ` set (touched (cells data) allCells 0)
              \<longrightarrow> Map_get (cellDecorationsMap s') d = None)
         \<and> fst ` set (cellDecorationsMap s')
             = fst ` set (touched (cells data) allCells 0)
         \<and> distinct (map fst (cellDecorationsMap s'))
         \<and> distinct (map fst (Map_clear :: 'a decorations_map))
         \<and> (distinct (map fst m) \<longrightarrow> distinct (map fst (Map_set m k v)))
         \<and> (distinct (map fst (cellDecorationsMap s0)) \<longrightarrow>
              distinct (map fst (cellDecorationsMap (fst (profileNotebook outcome cs s0)))))"
proof -
  let ?t = "touched (cells data) allCells 0"
  from assms
  have loop: "cells_loop (cells data) allCells 0 Map_clear = (cellDecorationsMap s', None)"
    by (auto simp: profileNotebook_def annotate_def split: prod.splits option.splits)
  have get: "Map_get (cellDecorationsMap s') x = map_of (rev ?t) x" for x
    using cells_loop_success [OF loop, of x]
    by (simp add: Map_get_def Map_clear_def split: option.splits)
  have keys: "fst ` set (cellDecorationsMap s') = fst ` set ?t"
  proof (rule set_eqI)
    fix x
    have "x \<in> fst ` set (cellDecorationsMap s') \<longleftrightarrow> map_of (rev ?t) x \<noteq> None"
      by (simp add: keys_of_Map_get get)
    also have "\<dots> \<longleftrightarrow> x \<in> fst ` set ?t"
      by (simp add: map_of_eq_None_iff)
    finally show "x \<in> fst ` set (cellDecorationsMap s') \<longleftrightarrow> x \<in> fst ` set ?t" .
  qed
  have absent: "d \<notin> fst ` set ?t \<longrightarrow> Map_get (cellDecorationsMap s') d = None"
    using keys keys_of_Map_get [of d "cellDecorationsMap s'"] by simp
  have d1: "distinct (map fst (cellDecorationsMap s'))"
    using annotate_distinct [of "Inr data" allCells s] assms by (simp add: profileNotebook_def)
  show ?thesis
    using get [of d] absent keys d1 distinct_Map_set [of m k v]
      profileNotebook_distinct [of s0 outcome cs]
    by (simp add: Map_clear_def)
qed

theorem successful_run_replaces_store_witness:
  "Map_get (cellDecorationsMap hover_state) 7 =
     Some [line_decoration [[0x61], [0x62], [0x63]] 0 example_line,
           line_decoration [[0x61], [0x62], [0x63]] 2 example_line,
           summary_decoration [[0x61], [0x62], [0x63]] example_cell]
   \<and> Map_get (cellDecorationsMap hover_state) 8 = None"
proof -
  note r = hover_state_run
  have t: "touched (cells \<lparr>cells = CellsArray [Some example_cell]\<rparr>)
             [\<lparr>kind = Code, document = Some example_document\<rparr>] 0 =
      [(7, [line_decoration [[0x61], [0x62], [0x63]] 0 example_line,
            line_decoration [[0x61], [0x62], [0x63]] 2 example_line,
            summary_decoration [[0x61], [0x62], [0x63]] example_cell])]"
    by (simp add: cell_entry_def cell_decorations_def example_cell_def example_document_def
        parse)
  from successful_run_replaces_store [OF r, of 7, THEN conjunct1]
    successful_run_replaces_store [OF r, of 8, THEN conjunct1]
  show ?thesis
    unfolding t by simp
qed

text \<open>
  Claim C9. Running the command again on the same notebook with the same outcome of the
  profiler changes nothing: the second run ends in the state and with the message of
  the first, so the map holds equal records after both. The map a run on a report
  leaves does not depend on the state the run started from.
\<close>

theorem run_idempotent:
  "profileNotebook outcome allCells (fst (profileNotebook outcome allCells s)) =
     profileNotebook outcome allCells s
   \<and> cellDecorationsMap (fst (profileNotebook (OutputRead parsed) allCells s1)) =
       cellDecorationsMap (fst (profileNotebook (OutputRead parsed) allCells s2))"
proof (intro conjI)
  show "profileNotebook outcome allCells (fst (profileNotebook outcome allCells s)) =
     profileNotebook outcome allCells s"
    by (cases outcome)
      (auto simp: profileNotebook_def annotate_def split: sum.splits prod.splits option.splits)
next
  show "cellDecorationsMap (fst (profileNotebook (OutputRead parsed) allCells s1)) =
       cellDecorationsMap (fst (profileNotebook (OutputRead parsed) allCells s2))"
    by (auto simp: profileNotebook_def annotate_def split: sum.splits prod.splits option.splits)
qed

theorem run_idempotent_witness:
  "profileNotebook (OutputRead (Inr \<lparr>cells = CellsArray [Some example_cell]\<rparr>))
       [\<lparr>kind = Code, document = Some example_document\<rparr>] hover_state
     = (hover_state, AnnotationsAdded)"
proof -
  note r = hover_state_run
  from run_idempotent [of "OutputRead (Inr \<lparr>cells = CellsArray [Some example_cell]\<rparr>)"
      "[\<lparr>kind = Code, document = Some example_document\<rparr>]" example_state, THEN conjunct1]
  show ?thesis unfolding r by simp
qed

section \<open>Hover\<close>

lemma find_append_first: "\<exists>x \<in> set xs. P x \<Longrightarrow> find P (xs @ ys) = find P xs"
  by (induction xs) auto

lemma find_split: "\<forall>p \<in> set pre. \<not> P p \<Longrightarrow> P x \<Longrightarrow> find P (pre @ x # post) = Some x"
  by (induction pre) auto

text \<open>
  Claim C10. For a document in the map, the hover provider returns the text of the first
  of its decorations whose line is the line asked for; the column asked for plays no
  part. So where the decorations are line records followed by the summary and a line
  record sits on the line asked for, the text is that of the first such line record,
  not the summary's. It returns nothing for a document that is not in the map and for
  a line on which the document has no decoration.
\<close>

theorem provideHover_first_match:
  "provideHover m doc \<lparr>line = l, character = c\<rparr> = provideHover m doc \<lparr>line = l, character = c'\<rparr>
   \<and> (Map_get m (uri doc) = Some (pre @ r # post)
        \<and> (\<forall>p \<in> set pre. line (range_start p) \<noteq> line pos)
        \<and> line (range_start r) = line pos
        \<longrightarrow> provideHover m doc pos = Some (contentText r))
   \<and> (Map_get m (uri doc) = Some (lineRecords @ [summary])
        \<and> (\<exists>x \<in> set lineRecords. line (range_start x) = line pos)
        \<longrightarrow> provideHover m doc pos =
              map_option contentText (find (\<lambda>x. line (range_start x) = line pos) lineRecords))
   \<and> (Map_get m (uri doc) = None \<longrightarrow> provideHover m doc pos = None)
   \<and> (Map_get m (uri doc) = Some ds \<and> (\<forall>x \<in> set ds. line (range_start x) \<noteq> line pos)
        \<longrightarrow> provideHover m doc pos = None)"
proof (intro conjI impI)
  show "provideHover m doc \<lparr>line = l, character = c\<rparr>
      = provideHover m doc \<lparr>line = l, character = c'\<rparr>"
    by (cases "Map_get m (uri doc)") (simp_all add: provideHover_def)
next
  assume "Map_get m (uri doc) = Some (pre @ r # post)
        \<and> (\<forall>p \<in> set pre. line (range_start p) \<noteq> line pos)
        \<and> line (range_start r) = line pos"
  then show "provideHover m doc pos = Some (contentText r)"
    by (simp add: provideHover_def find_split)
next
  assume "Map_get m (uri doc) = Some (lineRecords @ [summary])
        \<and> (\<exists>x \<in> set lineRecords. line (range_start x) = line pos)"
  then show "provideHover m doc pos =
      map_option contentText (find (\<lambda>x. line (range_start x) = line pos) lineRecords)"
    by (simp add: provideHover_def find_append_first split: option.splits)
next
  assume "Map_get m (uri doc) = None"
  then show "provideHover m doc pos = None" by (simp add: provideHover_def)
next
  assume a: "Map_get m (uri doc) = Some ds \<and> (\<forall>x \<in> set ds. line (range_start x) \<noteq> line pos)"
  then have "find (\<lambda>x. line (range_start x) = line pos) ds = None"
    by (simp add: find_None_iff)
  with a show "provideHover m doc pos = None"
    by (simp add: provideHover_def)
qed

theorem provideHover_first_match_witness:
  "provideHover (cellDecorationsMap hover_state) example_document \<lparr>line = 2, character = 0\<rparr>
     = Some (stopwatch @ '' 1.00 ms  | '' @ high_voltage @ '' 12.50%'')"
proof -
  have g: "Map_get (cellDecorationsMap hover_state) (uri example_document) =
      Some ([line_decoration [[0x61], [0x62], [0x63]] 0 example_line,
             line_decoration [[0x61], [0x62], [0x63]] 2 example_line]
            @ [summary_decoration [[0x61], [0x62], [0x63]] example_cell])"
    by (simp add: hover_state_map Map_get_def example_document_def)
  have e: "\<exists>x \<in> set [line_decoration [[0x61], [0x62], [0x63]] 0 example_line,
             line_decoration [[0x61], [0x62], [0x63]] 2 example_line].
        line (range_start x) = line \<lparr>line = 2, character = 0\<rparr>"
    by (simp add: line_decoration_sel)
  have "provideHover (cellDecorationsMap hover_state) example_document \<lparr>line = 2, character = 0\<rparr>
      = map_option contentText (find (\<lambda>x. line (range_start x) = line \<lparr>line = 2, character = 0\<rparr>)
          [line_decoration [[0x61], [0x62], [0x63]] 0 example_line,
           line_decoration [[0x61], [0x62], [0x63]] 2 example_line])"
    using provideHover_first_match [THEN conjunct2, THEN conjunct2, THEN conjunct1] g e
    by blast
  then show ?thesis
    by (simp add: line_decoration_sel example_line_def render)
qed

end
